theory Spec2Isabelle
  imports Complex_Main "HOL-Library.Sublist"
begin

section \<open>Binary64 arithmetic used for the split sizes\<close>

text \<open>
  The driver computes the development and test sizes as
  \<^verbatim>\<open>(frac_dev * sample_num_list).astype(int)\<close> with \<^verbatim>\<open>frac_dev = 15 / 100\<close>.
  Both factors are IEEE binary64 numbers, so the product is the exact product rounded to
  53 significant bits (round to nearest, ties to even), and \<^verbatim>\<open>astype(int)\<close> truncates.
  The double nearest to \<open>15/100\<close> is \<open>5404319552844595 / 2^55\<close>; the model below works in
  units of \<open>2^-55\<close>, where every quantity is a natural number.
\<close>

definition round_half_even :: "nat \<Rightarrow> nat \<Rightarrow> nat" where
  \<comment> \<open>\<open>p / 2^s\<close> rounded to the nearest natural number, ties to the even one\<close>
  "round_half_even p s =
     (let q = p div 2 ^ s; r = p mod 2 ^ s; h = 2 ^ (s - 1)
      in if s = 0 then p
         else if r < h then q
         else if h < r then q + 1
         else if even q then q else q + 1)"

fun bit_length :: "nat \<Rightarrow> nat" where
  "bit_length n = (if n = 0 then 0 else Suc (bit_length (n div 2)))"

definition round53 :: "nat \<Rightarrow> nat" where
  \<comment> \<open>the nearest natural number with at most 53 significant bits\<close>
  "round53 p = (let s = bit_length p - 53 in round_half_even p s * 2 ^ s)"

definition frac_dev :: nat where
  \<comment> \<open>\<^verbatim>\<open>frac_dev = 15 / 100\<close> as a double, in units of \<open>2^-55\<close>\<close>
  "frac_dev = 5404319552844595"

definition frac_test :: nat where
  \<comment> \<open>\<^verbatim>\<open>frac_test = 15 / 100\<close> as a double, in units of \<open>2^-55\<close>\<close>
  "frac_test = 5404319552844595"

definition float_times_int_astype_int :: "nat \<Rightarrow> nat \<Rightarrow> nat" where
  \<comment> \<open>\<^verbatim>\<open>(fr * n).astype(int)\<close>: the integer \<open>n\<close> is converted to a double, the product is
      rounded to a double, and the result is truncated\<close>
  "float_times_int_astype_int fr n = round53 (fr * round53 n) div 2 ^ 55"

section \<open>Python slices\<close>

definition py_bound :: "nat \<Rightarrow> int \<Rightarrow> nat" where
  \<comment> \<open>a slice bound on a sequence of length \<open>n\<close>: negative bounds count from the end,
      and every bound is clipped to \<open>0..n\<close>\<close>
  "py_bound n i = (if i < 0 then nat (int n + i) else min n (nat i))"

definition py_slice :: "'a list \<Rightarrow> int option \<Rightarrow> int option \<Rightarrow> 'a list" where
  \<comment> \<open>\<^verbatim>\<open>xs[lo:hi]\<close>; \<open>None\<close> is an omitted bound\<close>
  "py_slice xs lo hi =
     (let n = length xs;
          a = (case lo of None \<Rightarrow> 0 | Some i \<Rightarrow> py_bound n i);
          b = (case hi of None \<Rightarrow> n | Some j \<Rightarrow> py_bound n j)
      in take (b - a) (drop a xs))"

section \<open>Loading the trajectories and cutting the splits\<close>

text \<open>
  Each file of the dataset folder is one trajectory. A row of a file holds the timestamp
  (column 0), the input vector (columns 1 to 10) and the output vector (columns 11 to 13).
\<close>

record sample =
  s_t :: real
  s_x :: "real list"
  s_y :: "real list"

type_synonym trajectory = "sample list"

definition sample_rate :: real where
  "sample_rate = 1 / 10"

record dataset =
  X :: "real list list list"
  Y :: "real list list list"
  t :: "real list list"
  sample_num_list :: "nat list"
  N :: nat
  dt :: "real list"

definition load_data :: "trajectory list \<Rightarrow> dataset" where
  \<comment> \<open>lines 211 to 230: \<open>dt\<close> is one array of \<open>N\<close> rows, \<open>N\<close> the pooled number of samples\<close>
  "load_data files =
     (let n = sum_list (map length files)
      in \<lparr> X = map (map s_x) files,
           Y = map (map s_y) files,
           t = map (map s_t) files,
           sample_num_list = map length files,
           N = n,
           dt = replicate n (sample_rate * 1) \<rparr>)"

definition Ndev_num_list :: "dataset \<Rightarrow> nat list" where
  "Ndev_num_list d = map (float_times_int_astype_int frac_dev) (sample_num_list d)"

definition Ntest_num_list :: "dataset \<Rightarrow> nat list" where
  "Ntest_num_list d = map (float_times_int_astype_int frac_test) (sample_num_list d)"

definition Ntrain_num_list :: "dataset \<Rightarrow> int list" where
  \<comment> \<open>\<^verbatim>\<open>sample_num_list - Ndev_num_list - Ntest_num_list\<close>, elementwise on integers\<close>
  "Ntrain_num_list d =
     map (\<lambda>(n, nd, nt). int n - int nd - int nt)
       (zip (sample_num_list d) (zip (Ndev_num_list d) (Ntest_num_list d)))"

definition loop_items :: "dataset \<Rightarrow> (nat \<times> int \<times> int) list" where
  \<comment> \<open>\<^verbatim>\<open>zip(enumerate(Ndev_num_list), Ntrain_num_list)\<close> as triples \<open>(i, Ndev, Ntrain)\<close>\<close>
  "loop_items d =
     map (\<lambda>((i, nd), ntr). (i, int nd, ntr))
       (zip (zip [0 ..< length (Ndev_num_list d)] (Ndev_num_list d)) (Ntrain_num_list d))"

definition Xtrain :: "dataset \<Rightarrow> real list list list" where
  "Xtrain d = map (\<lambda>(i, Ndev, Ntrain). py_slice (X d ! i) None (Some Ntrain)) (loop_items d)"

definition Ytrain :: "dataset \<Rightarrow> real list list list" where
  "Ytrain d = map (\<lambda>(i, Ndev, Ntrain). py_slice (Y d ! i) (Some 1) (Some (Ntrain + 1))) (loop_items d)"

definition ttrain :: "dataset \<Rightarrow> real list list" where
  "ttrain d = map (\<lambda>(i, Ndev, Ntrain). py_slice (t d ! i) (Some 1) (Some (Ntrain + 1))) (loop_items d)"

definition dttrain :: "dataset \<Rightarrow> real list list" where
  "dttrain d = map (\<lambda>(i, Ndev, Ntrain). py_slice (dt d) None (Some Ntrain)) (loop_items d)"

definition Xdev :: "dataset \<Rightarrow> real list list list" where
  "Xdev d = map (\<lambda>(i, Ndev, Ntrain). py_slice (X d ! i) (Some Ntrain) (Some (Ntrain + Ndev))) (loop_items d)"

definition Ydev :: "dataset \<Rightarrow> real list list list" where
  "Ydev d = map (\<lambda>(i, Ndev, Ntrain).
     py_slice (Y d ! i) (Some (Ntrain + 1)) (Some (Ntrain + Ndev + 1))) (loop_items d)"

definition tdev :: "dataset \<Rightarrow> real list list" where
  "tdev d = map (\<lambda>(i, Ndev, Ntrain).
     py_slice (t d ! i) (Some (Ntrain + 1)) (Some (Ntrain + Ndev + 1))) (loop_items d)"

definition dtdev :: "dataset \<Rightarrow> real list list" where
  "dtdev d = map (\<lambda>(i, Ndev, Ntrain). py_slice (dt d) (Some Ntrain) (Some (Ntrain + Ndev))) (loop_items d)"

definition Xtest :: "dataset \<Rightarrow> real list list list" where
  "Xtest d = map (\<lambda>(i, Ndev, Ntrain). py_slice (X d ! i) (Some (Ntrain + Ndev)) (Some (- 1))) (loop_items d)"

definition Ytest :: "dataset \<Rightarrow> real list list list" where
  "Ytest d = map (\<lambda>(i, Ndev, Ntrain). py_slice (Y d ! i) (Some (Ntrain + Ndev + 1)) None) (loop_items d)"

definition ttest :: "dataset \<Rightarrow> real list list" where
  "ttest d = map (\<lambda>(i, Ndev, Ntrain). py_slice (t d ! i) (Some (Ntrain + Ndev + 1)) None) (loop_items d)"

definition dttest :: "dataset \<Rightarrow> real list list" where
  "dttest d = map (\<lambda>(i, Ndev, Ntrain). py_slice (dt d) (Some (Ntrain + Ndev)) (Some (- 1))) (loop_items d)"


section \<open>Exceptions\<close>

datatype error =
    AssertionError
  | IndexError
  | AttributeError
  | ZeroDivisionError
  | NotImplementedError string
  | External string  \<comment> \<open>an exception raised inside a collaborator\<close>

section \<open>Floating-point values of numpy\<close>

text \<open>
  A float64 is modelled as an exact real number or one of the IEEE special values.
  Rounding of finite results, overflow and the sign of zero are not modelled; the special
  values follow IEEE 754, and a division by zero gives a special value and no exception,
  as numpy does.
\<close>

datatype npfloat = Fin real | PInf | NInf | NaN


fun np_add :: "npfloat \<Rightarrow> npfloat \<Rightarrow> npfloat" where
  "np_add (Fin x) (Fin y) = Fin (x + y)"
| "np_add NaN _ = NaN"
| "np_add _ NaN = NaN"
| "np_add PInf NInf = NaN"
| "np_add NInf PInf = NaN"
| "np_add PInf _ = PInf"
| "np_add _ PInf = PInf"
| "np_add NInf _ = NInf"
| "np_add _ NInf = NInf"

fun np_neg :: "npfloat \<Rightarrow> npfloat" where
  "np_neg (Fin x) = Fin (- x)"
| "np_neg PInf = NInf"
| "np_neg NInf = PInf"
| "np_neg NaN = NaN"

definition np_sub :: "npfloat \<Rightarrow> npfloat \<Rightarrow> npfloat" where
  "np_sub a b = np_add a (np_neg b)"

fun np_mul :: "npfloat \<Rightarrow> npfloat \<Rightarrow> npfloat" where
  "np_mul (Fin x) (Fin y) = Fin (x * y)"
| "np_mul NaN _ = NaN"
| "np_mul _ NaN = NaN"
| "np_mul PInf (Fin y) = (if y = 0 then NaN else if 0 < y then PInf else NInf)"
| "np_mul NInf (Fin y) = (if y = 0 then NaN else if 0 < y then NInf else PInf)"
| "np_mul (Fin x) PInf = (if x = 0 then NaN else if 0 < x then PInf else NInf)"
| "np_mul (Fin x) NInf = (if x = 0 then NaN else if 0 < x then NInf else PInf)"
| "np_mul PInf PInf = PInf"
| "np_mul NInf NInf = PInf"
| "np_mul PInf NInf = NInf"
| "np_mul NInf PInf = NInf"

fun np_div :: "npfloat \<Rightarrow> npfloat \<Rightarrow> npfloat" where
  "np_div (Fin x) (Fin y) =
     (if y = 0 then (if x = 0 then NaN else if 0 < x then PInf else NInf) else Fin (x / y))"
| "np_div NaN _ = NaN"
| "np_div _ NaN = NaN"
| "np_div (Fin x) PInf = Fin 0"
| "np_div (Fin x) NInf = Fin 0"
| "np_div PInf (Fin y) = (if 0 \<le> y then PInf else NInf)"
| "np_div NInf (Fin y) = (if 0 \<le> y then NInf else PInf)"
| "np_div PInf PInf = NaN"
| "np_div PInf NInf = NaN"
| "np_div NInf PInf = NaN"
| "np_div NInf NInf = NaN"

fun np_sqrt :: "npfloat \<Rightarrow> npfloat" where
  "np_sqrt (Fin x) = (if x < 0 then NaN else Fin (sqrt x))"
| "np_sqrt PInf = PInf"
| "np_sqrt NInf = NaN"
| "np_sqrt NaN = NaN"

fun np_less :: "npfloat \<Rightarrow> npfloat \<Rightarrow> bool" where
  "np_less (Fin x) (Fin y) = (x < y)"
| "np_less NaN _ = False"
| "np_less _ NaN = False"
| "np_less NInf NInf = False"
| "np_less NInf _ = True"
| "np_less _ NInf = False"
| "np_less PInf _ = False"
| "np_less _ PInf = True"

definition np_square :: "npfloat \<Rightarrow> npfloat" where
  \<comment> \<open>\<^verbatim>\<open>x ** 2\<close>\<close>
  "np_square a = np_mul a a"

definition np_sum :: "npfloat list \<Rightarrow> npfloat" where
  \<comment> \<open>\<^verbatim>\<open>np.sum\<close> of a flat sequence\<close>
  "np_sum xs = foldl np_add (Fin 0) xs"

definition np_mean :: "npfloat list \<Rightarrow> npfloat" where
  \<comment> \<open>\<^verbatim>\<open>np.mean\<close> of a flat sequence: the sum divided by the count (NaN when empty)\<close>
  "np_mean xs = np_div (np_sum xs) (Fin (real (length xs)))"

section \<open>The evaluation function: root relative squared error\<close>

record ndarray =
  shape :: "nat \<times> nat"
  data :: "npfloat list list"

definition wf_ndarray :: "ndarray \<Rightarrow> bool" where
  \<comment> \<open>a two-dimensional array: \<open>fst shape\<close> rows of \<open>snd shape\<close> entries each\<close>
  "wf_ndarray a \<longleftrightarrow>
     length (data a) = fst (shape a) \<and> list_all (\<lambda>row. length row = snd (shape a)) (data a)"

definition sum_axis0 :: "nat \<Rightarrow> npfloat list list \<Rightarrow> npfloat list" where
  \<comment> \<open>\<^verbatim>\<open>np.sum(a, axis=0)\<close> for rows of length \<open>C\<close>: the rows are added up entry by entry\<close>
  "sum_axis0 C rows = foldl (map2 np_add) (replicate C (Fin 0)) rows"

definition mean_axis0 :: "ndarray \<Rightarrow> npfloat list" where
  \<comment> \<open>\<^verbatim>\<open>np.mean(a, axis=0)\<close>\<close>
  "mean_axis0 a =
     map (\<lambda>s. np_div s (Fin (real (fst (shape a))))) (sum_axis0 (snd (shape a)) (data a))"

definition prediction_error :: "ndarray \<Rightarrow> ndarray \<Rightarrow> error + npfloat" where
  "prediction_error truth prediction =
     (if shape truth \<noteq> shape prediction then Inl AssertionError
      else
        let se = sum_axis0 (snd (shape truth))
                   (map (map np_square) (map2 (map2 np_sub) (data truth) (data prediction)));
            centred = map (\<lambda>row. map2 np_sub row (mean_axis0 truth)) (data truth);
            rse = map (\<lambda>s. np_div s (np_sum (concat (map (map np_square) centred)))) se;
            rrse = np_mean (map np_sqrt rse)
        in Inr (np_mul (Fin 100) rrse))"

text \<open>
  The same quantity in the words of the specification, entry by entry: the summed squared
  error of a channel, the mean of a channel, and one denominator for all channels.
\<close>

definition entry :: "ndarray \<Rightarrow> nat \<Rightarrow> nat \<Rightarrow> npfloat" where
  "entry a i c = data a ! i ! c"

definition channel_squared_error :: "ndarray \<Rightarrow> ndarray \<Rightarrow> nat \<Rightarrow> npfloat" where
  "channel_squared_error truth prediction c =
     np_sum (map (\<lambda>i. np_square (np_sub (entry truth i c) (entry prediction i c)))
               [0 ..< fst (shape truth)])"

definition channel_mean :: "ndarray \<Rightarrow> nat \<Rightarrow> npfloat" where
  "channel_mean truth c =
     np_div (np_sum (map (\<lambda>i. entry truth i c) [0 ..< fst (shape truth)]))
       (Fin (real (fst (shape truth))))"

definition global_denominator :: "ndarray \<Rightarrow> npfloat" where
  "global_denominator truth =
     np_sum (concat (map (\<lambda>i. map (\<lambda>c. np_square (np_sub (entry truth i c) (channel_mean truth c)))
                                  [0 ..< snd (shape truth)])
                       [0 ..< fst (shape truth)]))"

definition rrse_percent :: "ndarray \<Rightarrow> ndarray \<Rightarrow> npfloat" where
  "rrse_percent truth prediction =
     np_mul (Fin 100)
       (np_mean (map (\<lambda>c. np_sqrt (np_div (channel_squared_error truth prediction c)
                                      (global_denominator truth)))
                   [0 ..< snd (shape truth)]))"

definition of_reals :: "real list list \<Rightarrow> nat \<Rightarrow> ndarray" where
  \<comment> \<open>the array of the given finite rows, each of \<open>C\<close> entries\<close>
  "of_reals rows C = \<lparr> shape = (length rows, C), data = map (map Fin) rows \<rparr>"


section \<open>Command line parameters\<close>

record paras =
  time_aware :: string
  model :: string
  interpol :: string
  gamma :: real
  step_size :: real
  missing :: real
  k_state :: int
  scheme :: string
  batch_size :: int
  epochs :: int
  lr :: real
  bptt :: int
  dropout :: real
  l2 :: real
  save :: string
  eval_epochs :: int
  seed :: int
  reset :: bool

definition time_aware_choices :: "string list" where
  "time_aware_choices = [''no'', ''input'', ''variable'']"

definition model_choices :: "string list" where
  "model_choices = [''GRU'', ''GRUinc'', ''ARNN'', ''ARNNinc'']"

section \<open>The guard against overwriting a completed run\<close>



fun is_substring :: "string \<Rightarrow> string \<Rightarrow> bool" where
  \<comment> \<open>\<^verbatim>\<open>p in s\<close> on strings\<close>
  "is_substring p [] = (p = [])"
| "is_substring p (c # cs) = (prefix p (c # cs) \<or> is_substring p cs)"





section \<open>Choosing the cell and building the model\<close>

datatype cell_factory = GRUCell | HOGRUCell | IncrHOGRUCell | HOARNNCell | IncrHOARNNCell

definition select_cell_factory :: "paras \<Rightarrow> error + cell_factory" where
  \<comment> \<open>lines 372 to 381\<close>
  "select_cell_factory p =
     (if model p = ''GRU'' then Inr (if time_aware p = ''no'' then GRUCell else HOGRUCell)
      else if model p = ''GRUinc'' then Inr IncrHOGRUCell
      else if model p = ''ARNN'' then Inr HOARNNCell
      else if model p = ''ARNNinc'' then Inr IncrHOARNNCell
      else Inl (NotImplementedError (''unknown model type '' @ model p)))"

definition dt_mean :: "dataset \<Rightarrow> error + npfloat" where
  \<comment> \<open>line 383: \<^verbatim>\<open>np.mean(dttrain[0])\<close>\<close>
  "dt_mean d = (case dttrain d of [] \<Rightarrow> Inl IndexError | a # _ \<Rightarrow> Inr (np_mean (map Fin a)))"

record mimo_args =
  arg_k_state :: int
  arg_dropout :: real
  arg_cell_factory :: cell_factory
  arg_meandt :: npfloat
  arg_train_scheme :: string
  arg_eval_scheme :: string
  arg_gamma :: real
  arg_step_size :: real
  arg_interpol :: string

definition model_arguments :: "paras \<Rightarrow> dataset \<Rightarrow> error + mimo_args" where
  \<comment> \<open>lines 372 to 396: the keyword arguments of the call of \<^verbatim>\<open>MIMO\<close> (the two
      dimensions \<^verbatim>\<open>k_in\<close> and \<^verbatim>\<open>k_out\<close>, read off the first trajectory, are left out)\<close>
  "model_arguments p d =
     (case select_cell_factory p of
        Inl e \<Rightarrow> Inl e
      | Inr cf \<Rightarrow>
          (case dt_mean d of
             Inl e \<Rightarrow> Inl e
           | Inr m \<Rightarrow>
               Inr \<lparr> arg_k_state = k_state p, arg_dropout = dropout p, arg_cell_factory = cf,
                     arg_meandt = m, arg_train_scheme = scheme p, arg_eval_scheme = scheme p,
                     arg_gamma = gamma p, arg_step_size = step_size p,
                     arg_interpol = interpol p \<rparr>))"


section \<open>The training driver\<close>

text \<open>
  The sequence model, its cells and the epoch trainer live outside this file of the
  repository. They enter the driver as collaborators: functions that return a value or
  raise. The driver's own control flow, its three variables \<^verbatim>\<open>best_dev_error\<close>,
  \<^verbatim>\<open>best_dev_epoch\<close> and \<^verbatim>\<open>error_test\<close>, and the calls it makes are modelled as
  written; the calls are recorded in a trace.
\<close>

datatype split = Train | Dev | Test

datatype 'a pyobj = PyList "'a list" | PyArray ndarray

fun py_prediction_error :: "'a pyobj \<Rightarrow> ndarray \<Rightarrow> error + npfloat" where
  \<comment> \<open>\<^verbatim>\<open>prediction_error\<close> reads \<^verbatim>\<open>truth.shape\<close> first; a Python list has no such attribute\<close>
  "py_prediction_error (PyList _) prediction = Inl AttributeError"
| "py_prediction_error (PyArray truth) prediction = prediction_error truth prediction"

record ('m, 'h, 'y) collaborators =
  MIMO :: "mimo_args \<Rightarrow> error + 'm"
  tensors :: "dataset \<Rightarrow> error + unit"
  trainer :: "nat \<Rightarrow> 'm \<Rightarrow> error + ('m \<times> npfloat)"
  forward :: "'m \<Rightarrow> split \<Rightarrow> 'h option \<Rightarrow> error + ('y \<times> 'h list)"
  criterion :: "'y \<Rightarrow> split \<Rightarrow> error + npfloat"
  t2np :: "'y \<Rightarrow> ndarray"

datatype ('m, 'h, 'y) event =
    Construct mimo_args
  | TrainEpoch nat
  | Forward split "'h option"
  | LogValue string npfloat nat
  | Logging string
  | ShowData string
  | TorchSave 'm
  | PickleDump 'y 'y

record ('m, 'h, 'y) run_state =
  net :: 'm
  best_dev_error :: npfloat
  best_dev_epoch :: nat
  error_test :: npfloat
  trace :: "('m, 'h, 'y) event list"

definition initial_state :: "'m \<Rightarrow> ('m, 'h, 'y) run_state" where
  \<comment> \<open>lines 461 to 463\<close>
  "initial_state m =
     \<lparr> net = m, best_dev_error = Fin 100000, best_dev_epoch = 0, error_test = Fin (- 1),
       trace = [] \<rparr>"

definition max_epochs_no_decrease :: int where
  "max_epochs_no_decrease = 1000"

definition last_state :: "'h list \<Rightarrow> error + 'h" where
  \<comment> \<open>\<^verbatim>\<open>h[:, -1, :]\<close>: the hidden state of the last step\<close>
  "last_state hs = (if hs = [] then Inl IndexError else Inr (last hs))"

subsection \<open>Sequencing of steps that may raise\<close>

definition ret :: "'a \<Rightarrow> 's \<Rightarrow> (error + 'a) \<times> 's" where
  "ret a s = (Inr a, s)"

definition call :: "error + 'a \<Rightarrow> 's \<Rightarrow> (error + 'a) \<times> 's" where
  \<comment> \<open>the outcome of a call that does not touch the driver's variables\<close>
  "call r s = (r, s)"

definition seq :: "('s \<Rightarrow> (error + 'a) \<times> 's) \<Rightarrow> ('a \<Rightarrow> 's \<Rightarrow> (error + 'b) \<times> 's)
    \<Rightarrow> 's \<Rightarrow> (error + 'b) \<times> 's" where
  \<comment> \<open>run the first step; an exception ends the sequence with the state reached so far\<close>
  "seq m f s = (case m s of (Inl e, s') \<Rightarrow> (Inl e, s') | (Inr a, s') \<Rightarrow> f a s')"

definition emits :: "('m, 'h, 'y) event list \<Rightarrow> ('m, 'h, 'y) run_state
    \<Rightarrow> (error + unit) \<times> ('m, 'h, 'y) run_state" where
  "emits evs s = (Inr (), s\<lparr>trace := trace s @ evs\<rparr>)"

definition assign :: "('s \<Rightarrow> 's) \<Rightarrow> 's \<Rightarrow> (error + unit) \<times> 's" where
  "assign f s = (Inr (), f s)"

subsection \<open>One evaluation pass\<close>

definition update_best :: "('m, 'h, 'y) collaborators \<Rightarrow> (split \<Rightarrow> 'a pyobj) \<Rightarrow> nat \<Rightarrow> 'm
    \<Rightarrow> 'y \<Rightarrow> 'h list \<Rightarrow> npfloat \<Rightarrow> ('m, 'h, 'y) run_state
    \<Rightarrow> (error + bool) \<times> ('m, 'h, 'y) run_state" where
  \<comment> \<open>lines 523 to 570\<close>
  "update_best env targets epoch m Ydev_pred hdev_pred error_dev =
     seq (assign (\<lambda>s. s\<lparr>best_dev_error := error_dev, best_dev_epoch := epoch\<rparr>)) (\<lambda>_.
     seq (emits [LogValue ''dev/best_error'' error_dev epoch]) (\<lambda>_.
     seq (call (last_state hdev_pred)) (\<lambda>state0.
     seq (emits [Forward Test (Some state0)]) (\<lambda>_.
     seq (call (forward env m Test (Some state0))) (\<lambda>(Ytest_pred, _).
     seq (call (py_prediction_error (targets Test) (t2np env Ytest_pred))) (\<lambda>err.
     seq (assign (\<lambda>s. s\<lparr>error_test := err\<rparr>)) (\<lambda>_.
     seq (emits [LogValue ''test/corresp_error'' err epoch,
                 Logging ''new best dev error'',
                 ShowData ''best_dev_devresults'',
                 ShowData ''best_dev_testresults'',
                 TorchSave m,
                 PickleDump Ydev_pred Ytest_pred]) (\<lambda>_.
     ret False))))))))"

definition forecasts :: "('m, 'h, 'y) collaborators \<Rightarrow> (split \<Rightarrow> 'a pyobj) \<Rightarrow> 'm
    \<Rightarrow> ('m, 'h, 'y) run_state
    \<Rightarrow> (error + npfloat \<times> npfloat \<times> 'y \<times> 'h list \<times> npfloat) \<times> ('m, 'h, 'y) run_state" where
  \<comment> \<open>lines 476 to 484: the forecasts on the train and on the dev split; the result is
      \<open>(error_train, mse_dev, Ydev_pred, hdev_pred, error_dev)\<close>\<close>
  "forecasts env targets m =
     seq (emits [Forward Train None]) (\<lambda>_.
     seq (call (forward env m Train None)) (\<lambda>(Ytrain_pred, htrain_pred).
     seq (call (py_prediction_error (targets Train) (t2np env Ytrain_pred))) (\<lambda>error_train.
     seq (call (last_state htrain_pred)) (\<lambda>state0.
     seq (emits [Forward Dev (Some state0)]) (\<lambda>_.
     seq (call (forward env m Dev (Some state0))) (\<lambda>(Ydev_pred, hdev_pred).
     seq (call (criterion env Ydev_pred Dev)) (\<lambda>mse_dev.
     seq (call (py_prediction_error (targets Dev) (t2np env Ydev_pred))) (\<lambda>error_dev.
     ret (error_train, mse_dev, Ydev_pred, hdev_pred, error_dev)))))))))"

definition reports :: "nat \<Rightarrow> npfloat \<Rightarrow> npfloat \<Rightarrow> npfloat \<Rightarrow> npfloat
    \<Rightarrow> ('m, 'h, 'y) event list" where
  \<comment> \<open>lines 487 to 519: the four logged values, the log line and the two figures\<close>
  "reports epoch mse_train error_train mse_dev error_dev =
     [LogValue ''train/mse'' mse_train epoch,
      LogValue ''train/error'' error_train epoch,
      LogValue ''dev/loss'' mse_dev epoch,
      LogValue ''dev/error'' error_dev epoch,
      Logging ''epoch'',
      ShowData ''current_trainresults'',
      ShowData ''current_devresults'']"

definition evaluation :: "('m, 'h, 'y) collaborators \<Rightarrow> (split \<Rightarrow> 'a pyobj) \<Rightarrow> nat \<Rightarrow> npfloat
    \<Rightarrow> ('m, 'h, 'y) run_state \<Rightarrow> (error + bool) \<times> ('m, 'h, 'y) run_state" where
  \<comment> \<open>lines 473 to 577; the result says whether the epoch loop is left by \<^verbatim>\<open>break\<close>\<close>
  "evaluation env targets epoch mse_train s0 =
     seq (forecasts env targets (net s0))
       (\<lambda>(error_train, mse_dev, Ydev_pred, hdev_pred, error_dev).
     seq (emits (reports epoch mse_train error_train mse_dev error_dev)) (\<lambda>_ s.
       if np_less error_dev (best_dev_error s)
       then update_best env targets epoch (net s0) Ydev_pred hdev_pred error_dev s
       else if int epoch - int (best_dev_epoch s) > max_epochs_no_decrease
       then seq (emits [Logging ''Development error did not decrease -- quitting'']) (\<lambda>_.
            ret True) s
       else ret False s)) s0"

subsection \<open>The epoch loop\<close>

datatype outcome = Finished | Stopped nat | Raised error

fun epoch_loop :: "('m, 'h, 'y) collaborators \<Rightarrow> (split \<Rightarrow> 'a pyobj) \<Rightarrow> paras \<Rightarrow> nat list
    \<Rightarrow> ('m, 'h, 'y) run_state \<Rightarrow> outcome \<times> ('m, 'h, 'y) run_state" where
  "epoch_loop env targets p [] s = (Finished, s)"
| "epoch_loop env targets p (epoch # rest) s =
     (let s1 = s\<lparr>trace := trace s @ [TrainEpoch epoch]\<rparr>
      in case trainer env epoch (net s1) of
           Inl e \<Rightarrow> (Raised e, s1)
         | Inr (m, mse_train) \<Rightarrow>
             (let s2 = s1\<lparr>net := m\<rparr>
              in if eval_epochs p = 0 then (Raised ZeroDivisionError, s2)
                 else if int epoch mod eval_epochs p = 0
                 then (case evaluation env targets epoch mse_train s2 of
                         (Inl e, s3) \<Rightarrow> (Raised e, s3)
                       | (Inr True, s3) \<Rightarrow> (Stopped epoch, s3)
                       | (Inr False, s3) \<Rightarrow> epoch_loop env targets p rest s3)
                 else epoch_loop env targets p rest s2))"


subsection \<open>The whole program\<close>





section \<open>Reading the trace\<close>

fun forward_calls :: "('m, 'h, 'y) event list \<Rightarrow> (split \<times> 'h option) list" where
  \<comment> \<open>the forward calls of the model, in order, each with its \<^verbatim>\<open>state0\<close> argument\<close>
  "forward_calls [] = []"
| "forward_calls (Forward sp state0 # evs) = (sp, state0) # forward_calls evs"
| "forward_calls (ev # evs) = forward_calls evs"

fun snapshots :: "('m, 'h, 'y) event list \<Rightarrow> ('m, 'h, 'y) event list" where
  \<comment> \<open>what is handed off for persistence: the saved model and the dumped predictions\<close>
  "snapshots [] = []"
| "snapshots (TorchSave m # evs) = TorchSave m # snapshots evs"
| "snapshots (PickleDump y y' # evs) = PickleDump y y' # snapshots evs"
| "snapshots (ev # evs) = snapshots evs"

definition new_events :: "('m, 'h, 'y) run_state \<Rightarrow> ('m, 'h, 'y) run_state
    \<Rightarrow> ('m, 'h, 'y) event list" where
  \<comment> \<open>the events added to the trace between two states\<close>
  "new_events s s' = drop (length (trace s)) (trace s')"

definition threaded_calls :: "('m, 'h, 'y) collaborators \<Rightarrow> 'm \<Rightarrow> (split \<times> 'h option) list" where
  \<comment> \<open>the forward calls of a pass that threads the hidden state: train without
      \<^verbatim>\<open>state0\<close>, dev from the last hidden state of train, test from the last hidden state
      of dev; the list ends where a forward call raises or returns no hidden state\<close>
  "threaded_calls env m =
     (Train, None) #
     (case forward env m Train None of
        Inl e \<Rightarrow> []
      | Inr (Ytrain_pred, htrain_pred) \<Rightarrow>
          (case last_state htrain_pred of
             Inl e \<Rightarrow> []
           | Inr h \<Rightarrow>
               (Dev, Some h) #
               (case forward env m Dev (Some h) of
                  Inl e \<Rightarrow> []
                | Inr (Ydev_pred, hdev_pred) \<Rightarrow>
                    (case last_state hdev_pred of
                       Inl e \<Rightarrow> []
                     | Inr h' \<Rightarrow> [(Test, Some h')]))))"

definition np_le :: "npfloat \<Rightarrow> npfloat \<Rightarrow> bool" where
  "np_le a b \<longleftrightarrow> a = b \<or> np_less a b"

section \<open>Concrete datasets\<close>

definition sample0 :: sample where
  "sample0 = \<lparr> s_t = 0, s_x = [], s_y = [] \<rparr>"


definition two_files :: "trajectory list" where
  \<comment> \<open>two trajectories of 20 samples each\<close>
  "two_files = [replicate 20 sample0, replicate 20 sample0]"



definition default_paras :: paras where
  "default_paras =
     \<lparr> time_aware = ''variable'', model = ''GRU'', interpol = ''constant'', gamma = 1,
       step_size = 1, missing = 0, k_state = 20, scheme = ''Euler'', batch_size = 16,
       epochs = 1000, lr = 1 / 1000, bptt = 20, dropout = 0, l2 = 0, save = ''results'',
       eval_epochs = 20, seed = 0, reset = False \<rparr>"


definition toy_truth :: ndarray where
  "toy_truth = \<lparr> shape = (2, 1), data = [[Fin 0], [Fin 2]] \<rparr>"

definition toy_prediction :: ndarray where
  "toy_prediction = \<lparr> shape = (2, 1), data = [[Fin 1], [Fin 3]] \<rparr>"

definition toy_env :: "(nat, nat, ndarray) collaborators" where
  "toy_env =
     \<lparr> MIMO = (\<lambda>_. Inr 0),
       tensors = (\<lambda>_. Inr ()),
       trainer = (\<lambda>epoch m. Inr (Suc m, Fin 1)),
       forward = (\<lambda>m sp state0.
          Inr (toy_prediction,
               [case state0 of None \<Rightarrow> 0 | Some h \<Rightarrow> h + 1,
                case state0 of None \<Rightarrow> 1 | Some h \<Rightarrow> h + 2])),
       criterion = (\<lambda>y sp. Inr (Fin 1)),
       t2np = (\<lambda>y. y) \<rparr>"

definition toy_targets :: "split \<Rightarrow> unit pyobj" where
  "toy_targets sp = PyArray toy_truth"



section \<open>The error of finite arrays in real numbers\<close>

definition squared_error :: "real list list \<Rightarrow> real list list \<Rightarrow> nat \<Rightarrow> real" where
  \<comment> \<open>the summed squared error of channel \<open>c\<close>\<close>
  "squared_error rows prows c = (\<Sum>i<length rows. (rows ! i ! c - prows ! i ! c)\<^sup>2)"

definition column_mean :: "real list list \<Rightarrow> nat \<Rightarrow> real" where
  "column_mean rows c = (\<Sum>i<length rows. rows ! i ! c) / real (length rows)"

definition centred_sum_of_squares :: "real list list \<Rightarrow> nat \<Rightarrow> real" where
  \<comment> \<open>the squared deviations from the channel means, summed over all steps and channels\<close>
  "centred_sum_of_squares rows C =
     (\<Sum>i<length rows. \<Sum>c<C. (rows ! i ! c - column_mean rows c)\<^sup>2)"





fun trained_epochs :: "('m, 'h, 'y) event list \<Rightarrow> nat list" where
  \<comment> \<open>the epochs for which the trainer was called, in order\<close>
  "trained_epochs [] = []"
| "trained_epochs (TrainEpoch epoch # evs) = epoch # trained_epochs evs"
| "trained_epochs (ev # evs) = trained_epochs evs"

definition recorded :: "('m, 'h, 'y) run_state \<Rightarrow> bool" where
  \<comment> \<open>the recorded best dev error and the recorded test error were logged for the
      recorded best epoch, or nothing has been recorded yet\<close>
  "recorded s \<longleftrightarrow>
     (best_dev_epoch s = 0 \<and> best_dev_error s = Fin 100000 \<and> error_test s = Fin (- 1)
        \<and> snapshots (trace s) = [])
     \<or> (LogValue ''dev/best_error'' (best_dev_error s) (best_dev_epoch s) \<in> set (trace s)
        \<and> LogValue ''test/corresp_error'' (error_test s) (best_dev_epoch s) \<in> set (trace s))"

fun is_raised :: "outcome \<Rightarrow> bool" where
  "is_raised (Raised e) = True"
| "is_raised out = False"

definition stale_state :: "(nat, nat, ndarray) run_state" where
  \<comment> \<open>a best dev error of 50 recorded at epoch 100\<close>
  "stale_state = (initial_state 0)\<lparr>best_dev_error := Fin 50, best_dev_epoch := 100\<rparr>"

definition long_run :: paras where
  \<comment> \<open>the default parameters with 1800 epochs and an evaluation every 600 epochs\<close>
  "long_run = default_paras\<lparr>epochs := 1800, eval_epochs := 600\<rparr>"

section \<open>Properties of the split sizes\<close>

declare bit_length.simps [simp del]

lemma bit_length_bounds: "0 < n \<Longrightarrow> 2 ^ (bit_length n - 1) \<le> n \<and> n < 2 ^ bit_length n"
proof (induction n rule: bit_length.induct)
  case (1 n)
  show ?case
  proof (cases "n div 2 = 0")
    case True
    with 1(2) have "n = 1" by (simp add: div_eq_0_iff) 
    then show ?thesis by (simp add: bit_length.simps)
  next
    case False
    with 1 have ih: "2 ^ (bit_length (n div 2) - 1) \<le> n div 2" "n div 2 < 2 ^ bit_length (n div 2)"
      by auto
    have pos: "0 < bit_length (n div 2)" using False by (simp add: bit_length.simps)
    have bl: "bit_length n = Suc (bit_length (n div 2))"
      using 1(2) by (subst bit_length.simps) simp
    have e: "(2::nat) ^ bit_length (n div 2) = 2 * 2 ^ (bit_length (n div 2) - 1)"
      using pos by (simp add: power_eq_if)
    have "2 ^ (bit_length n - 1) \<le> n" using ih(1) e bl by simp
    moreover have "n < 2 ^ bit_length n" using ih(2) bl by simp
    ultimately show ?thesis by simp
  qed
qed

lemma rhe_bounds:
  assumes "0 < s"
  shows "round_half_even p s * 2 ^ s \<le> p + 2 ^ (s - 1)"
    and "p \<le> round_half_even p s * 2 ^ s + 2 ^ (s - 1)"
proof -
  define d :: nat where "d = 2 ^ s"
  define h :: nat where "h = 2 ^ (s - 1)"
  define q where "q = p div d"
  define r where "r = p mod d"
  have dh: "d = 2 * h" using assms by (simp add: d_def h_def power_eq_if)
  have p: "p = q * d + r" by (simp add: q_def r_def)
  have md: "r < d" by (simp add: d_def r_def)
  have R: "round_half_even p s = (if r < h then q else if h < r then q + 1 else if even q then q else q + 1)"
    using assms by (simp add: round_half_even_def Let_def d_def h_def q_def r_def)
  show "round_half_even p s * 2 ^ s \<le> p + 2 ^ (s - 1)"
    unfolding R d_def[symmetric] h_def[symmetric] using p md dh
    by (auto simp: algebra_simps)
  show "p \<le> round_half_even p s * 2 ^ s + 2 ^ (s - 1)"
    unfolding R d_def[symmetric] h_def[symmetric] using p md dh
    by (auto simp: algebra_simps)
qed


lemma round53_small: "p < 2 ^ 53 \<Longrightarrow> round53 p = p"
proof -
  assume a: "p < 2 ^ 53"
  have "bit_length p \<le> 53"
  proof (cases "p = 0")
    case True then show ?thesis by (simp add: bit_length.simps)
  next
    case False
    then have "2 ^ (bit_length p - 1) \<le> p" using bit_length_bounds by simp
    with a have "(2::nat) ^ (bit_length p - 1) < 2 ^ 53" by linarith
    then have "bit_length p - 1 < 53" by (simp only: power_strict_increasing_iff) 
    then show ?thesis by simp
  qed
  then show ?thesis by (simp add: round53_def round_half_even_def)
qed


lemma mult_close_eq:
  fixes a b d :: nat
  assumes "a * d < b * d + d" "b * d < a * d + d"
  shows "a = b"
proof (rule ccontr)
  assume "a \<noteq> b"
  then consider "a + 1 \<le> b" | "b + 1 \<le> a" by linarith
  then show False
  proof cases
    case 1
    then have "(a + 1) * d \<le> b * d" by (rule mult_le_mono1)
    with assms show False by (simp add: algebra_simps)
  next
    case 2
    then have "(b + 1) * d \<le> a * d" by (rule mult_le_mono1)
    with assms show False by (simp add: algebra_simps)
  qed
qed

lemma astype_exact:
  assumes n: "n < 2 ^ 50"
  shows "float_times_int_astype_int 5404319552844595 n = 15 * n div 100"
proof -
  define p where "p = 5404319552844595 * n"
  define q where "q = 3 * n div 20"
  define r where "r = 3 * n mod 20"
  have qr: "3 * n = 20 * q + r" "r < 20" by (simp_all add: q_def r_def)
  have "15 * n div 100 = (5 * (3 * n)) div (5 * 20)" by simp
  also have "\<dots> = 3 * n div 20" by (rule div_mult_mult1) simp
  finally have q15: "15 * n div 100 = q" by (simp add: q_def)
  have pn: "20 * p + 4 * n = 108086391056891904 * n" by (simp add: p_def)
  have rn: "round53 n = n" using n by (intro round53_small) simp
  have goal: "round53 p div 2 ^ 55 = q"
  proof (cases "p < 2 ^ 53")
    case True
    then have "round53 p = p" by (rule round53_small)
    moreover have "n \<le> 1" using True unfolding p_def by simp
    ultimately show ?thesis using True qr by simp
  next
    case False
    then have ppos: "0 < p" by simp
    define s where "s = bit_length p - 53"
    define h :: nat where "h = 2 ^ (s - 1)"
    define R where "R = round53 p"
    have bl: "2 ^ (bit_length p - 1) \<le> p" "p < 2 ^ bit_length p"
      using bit_length_bounds[OF ppos] by simp_all
    have "(2::nat) ^ 53 < 2 ^ bit_length p" using False bl(2) by linarith
    then have "53 < bit_length p" by (simp only: power_strict_increasing_iff)
    then have spos: "0 < s" and bls: "bit_length p = 53 + s" by (simp_all add: s_def)
    have d2h: "(2::nat) ^ s = 2 * h" using spos by (simp add: h_def power_eq_if)
    have "(2::nat) ^ (bit_length p - 1) = 2 ^ 52 * 2 ^ s" 
      by (simp add: bls power_add)
    then have lo: "4503599627370496 * (2 * h) \<le> p" using bl(1) d2h by simp
    have "(2::nat) ^ bit_length p = 2 ^ 53 * 2 ^ s" by (simp add: bls power_add)
    then have hi: "p < 9007199254740992 * (2 * h)" using bl(2) d2h by simp
    have Rdef: "R = round_half_even p s * (2 * h)"
      by (simp add: R_def round53_def s_def[symmetric] d2h)
    have Rb: "R \<le> p + h" "p \<le> R + h"
      using rhe_bounds[OF spos, of p] by (simp_all add: Rdef h_def d2h)
    have bounds: "36028797018963968 * q \<le> R \<and> R < 36028797018963968 * (q + 1)"
    proof (cases "r = 0")
      case False
      then show ?thesis using qr pn lo hi Rb n by simp
    next
      case True
      have "p < 2 ^ 53 * 2 ^ 50" unfolding p_def using n by simp
      then have "(2::nat) ^ 52 * 2 ^ s < 2 ^ 53 * 2 ^ 50" using lo d2h by simp
      then have "(2::nat) ^ (52 + s) < 2 ^ 103" by (simp add: power_add)
      then have "52 + s < 103" by (simp only: power_strict_increasing_iff)
      then have "s \<le> 55" by simp
      then have "(2::nat) ^ 55 = 2 ^ (55 - s) * 2 ^ s" by (simp flip: power_add)
      then have xm: "36028797018963968 * q = (2 ^ (55 - s) * q) * (2 * h)"
        using d2h by simp
      have close1: "R < 36028797018963968 * q + 2 * h" 
        using qr pn lo hi Rb True by simp
      have close2: "36028797018963968 * q < R + 2 * h"
        using qr pn lo hi Rb True by simp
      have "round_half_even p s = 2 ^ (55 - s) * q"
        by (rule mult_close_eq[where d = "2 * h"]) (use close1 close2 xm Rdef in simp_all)
      then have "R = 36028797018963968 * q" using Rdef xm by simp
      then show ?thesis by simp
    qed
    have "R div 36028797018963968 = q"
      by (rule div_nat_eqI) (use bounds in \<open>simp_all add: algebra_simps\<close>)
    then show ?thesis by (simp add: R_def)
  qed
  show ?thesis
    unfolding float_times_int_astype_int_def rn q15 using goal by (simp add: p_def)
qed


section \<open>Properties of the slices\<close>

lemma py_slice_to: "0 \<le> b \<Longrightarrow> py_slice xs None (Some b) = take (nat b) xs"
  by (auto simp: py_slice_def py_bound_def Let_def min_def)

lemma py_slice_from_to:
  "0 \<le> a \<Longrightarrow> 0 \<le> b \<Longrightarrow> py_slice xs (Some a) (Some b) = take (nat b - nat a) (drop (nat a) xs)"
  by (auto simp: py_slice_def py_bound_def Let_def min_def)

lemma py_slice_from: "0 \<le> a \<Longrightarrow> py_slice xs (Some a) None = drop (nat a) xs"
  by (auto simp: py_slice_def py_bound_def Let_def min_def)

lemma py_slice_from_but_last:
  "0 \<le> a \<Longrightarrow> py_slice xs (Some a) (Some (- 1)) = take (length xs - 1 - nat a) (drop (nat a) xs)"
  by (auto simp: py_slice_def py_bound_def Let_def min_def nat_diff_distrib)

lemma sizes_load:
  "sample_num_list (load_data files) = map length files"
  "Ndev_num_list (load_data files) = map (\<lambda>f. float_times_int_astype_int frac_dev (length f)) files"
  "Ntest_num_list (load_data files) = map (\<lambda>f. float_times_int_astype_int frac_test (length f)) files"
  by (simp_all add: load_data_def Ndev_num_list_def Ntest_num_list_def Let_def)

lemma Ntrain_load:
  "Ntrain_num_list (load_data files) =
     map (\<lambda>f. int (length f) - int (float_times_int_astype_int frac_dev (length f))
                - int (float_times_int_astype_int frac_test (length f))) files"
  unfolding Ntrain_num_list_def sizes_load
  by (induction files) simp_all

lemma loop_items_load:
  "loop_items (load_data files) =
     map (\<lambda>i. (i, int (float_times_int_astype_int frac_dev (length (files ! i))),
               int (length (files ! i)) - int (float_times_int_astype_int frac_dev (length (files ! i)))
                - int (float_times_int_astype_int frac_test (length (files ! i)))))
       [0 ..< length files]"
  unfolding loop_items_def Ntrain_load sizes_load
  by (rule nth_equalityI) simp_all


lemma dev_fraction_le: "2 * (15 * n div 100) \<le> (n::nat)"
proof -
  have "(15 * n div 100) * 100 \<le> 15 * n" by (rule div_times_less_eq_dividend)
  then show ?thesis by simp
qed

lemma sizes_exact:
  assumes "n < 2 ^ 50"
  shows "float_times_int_astype_int frac_dev n = 15 * n div 100"
    and "float_times_int_astype_int frac_test n = 15 * n div 100"
  using astype_exact[OF assms] by (simp_all add: frac_dev_def frac_test_def)

lemma loop_item_at:
  assumes "i < length files" "length (files ! i) < 2 ^ 50"
  shows "loop_items (load_data files) ! i =
           (i, int (15 * length (files ! i) div 100),
            int (length (files ! i) - 2 * (15 * length (files ! i) div 100)))"
  using assms dev_fraction_le[of "length (files ! i)"]
  by (simp add: loop_items_load sizes_exact)

lemma length_loop_items: "length (loop_items (load_data files)) = length files"
  by (simp add: loop_items_load)

lemma load_fields:
  "X (load_data files) = map (map s_x) files"
  "Y (load_data files) = map (map s_y) files"
  "t (load_data files) = map (map s_t) files"
  "dt (load_data files) = replicate (sum_list (map length files)) sample_rate"
  "N (load_data files) = sum_list (map length files)"
  by (simp_all add: load_data_def Let_def)




lemma split_slices:
  assumes i: "i < length files" and n: "length (files ! i) < 2 ^ 50"
  defines "d \<equiv> load_data files"
  defines "n \<equiv> length (files ! i)"
  defines "k \<equiv> 15 * n div 100"
  shows "Ndev_num_list d ! i = k"
    and "Ntest_num_list d ! i = k"
    and "Ntrain_num_list d ! i = int n - 2 * int k"
    and "length (X d ! i) = n"
    and "Xtrain d ! i = take (n - 2 * k) (X d ! i)"
    and "Xdev d ! i = take k (drop (n - 2 * k) (X d ! i))"
    and "Xtest d ! i = take (k - 1) (drop (n - k) (X d ! i))"
proof -
  have le: "2 * k \<le> n" unfolding k_def by (rule dev_fraction_le)
  have li: "loop_items d ! i = (i, int k, int (n - 2 * k))"
    unfolding d_def k_def n_def using i n by (rule loop_item_at)
  have len: "i < length (loop_items d)" using i by (simp add: d_def length_loop_items)
  show "Ndev_num_list d ! i = k" "Ntest_num_list d ! i = k"
    using i n by (simp_all add: d_def sizes_load sizes_exact k_def n_def)
  show "Ntrain_num_list d ! i = int n - 2 * int k"
    using i n by (simp add: d_def Ntrain_load sizes_exact k_def n_def)
  show lx: "length (X d ! i) = n" using i by (simp add: d_def load_fields n_def)
  show "Xtrain d ! i = take (n - 2 * k) (X d ! i)"
    using len li by (simp add: Xtrain_def py_slice_to)
  show "Xdev d ! i = take k (drop (n - 2 * k) (X d ! i))"
    using len li by (simp add: Xdev_def py_slice_from_to nat_add_distrib)
  have e: "int (n - 2 * k) + int k = int (n - k)" using le by simp
  have "Xtest d ! i = py_slice (X d ! i) (Some (int (n - k))) (Some (- 1))"
    using len li by (simp add: Xtest_def e)
  also have "\<dots> = take (n - 1 - (n - k)) (drop (n - k) (X d ! i))"
    by (simp add: py_slice_from_but_last lx)
  also have "n - 1 - (n - k) = k - 1" using le by simp
  finally show "Xtest d ! i = take (k - 1) (drop (n - k) (X d ! i))" .
qed

lemma output_slices:
  assumes i: "i < length files" and n: "length (files ! i) < 2 ^ 50"
  defines "d \<equiv> load_data files"
  defines "n \<equiv> length (files ! i)"
  defines "k \<equiv> 15 * n div 100"
  shows "length (Y d ! i) = n"
    and "Ytrain d ! i = take (n - 2 * k) (drop 1 (Y d ! i))"
    and "Ydev d ! i = take k (drop (n - 2 * k + 1) (Y d ! i))"
    and "Ytest d ! i = drop (n - k + 1) (Y d ! i)"
    and "length (t d ! i) = n"
    and "ttrain d ! i = take (n - 2 * k) (drop 1 (t d ! i))"
    and "tdev d ! i = take k (drop (n - 2 * k + 1) (t d ! i))"
    and "ttest d ! i = drop (n - k + 1) (t d ! i)"
proof -
  have le: "2 * k \<le> n" unfolding k_def by (rule dev_fraction_le)
  have li: "loop_items d ! i = (i, int k, int (n - 2 * k))"
    unfolding d_def k_def n_def using i n by (rule loop_item_at)
  have len: "i < length (loop_items d)" using i by (simp add: d_def length_loop_items)
  have e: "int (n - 2 * k) + int k + 1 = int (n - k + 1)" 
          "int (n - 2 * k) + 1 = int (n - 2 * k + 1)" using le by simp_all
  have e1: "(1::int) = int 1" by simp
  show "length (Y d ! i) = n" "length (t d ! i) = n"
    using i by (simp_all add: d_def load_fields n_def)
  show "Ytrain d ! i = take (n - 2 * k) (drop 1 (Y d ! i))"
    using len li by (simp add: Ytrain_def py_slice_from_to nat_add_distrib)
  show "ttrain d ! i = take (n - 2 * k) (drop 1 (t d ! i))"
    using len li by (simp add: ttrain_def py_slice_from_to nat_add_distrib)
  show "Ydev d ! i = take k (drop (n - 2 * k + 1) (Y d ! i))"
    using len li by (simp add: Ydev_def py_slice_from_to nat_add_distrib)
  show "tdev d ! i = take k (drop (n - 2 * k + 1) (t d ! i))"
    using len li by (simp add: tdev_def py_slice_from_to nat_add_distrib)
  show "Ytest d ! i = drop (n - k + 1) (Y d ! i)"
    using len li by (simp add: Ytest_def e py_slice_from del: of_nat_add of_nat_Suc)
  show "ttest d ! i = drop (n - k + 1) (t d ! i)"
    using len li by (simp add: ttest_def e py_slice_from del: of_nat_add of_nat_Suc)
qed

lemma interval_slices:
  assumes i: "i < length files" and n: "length (files ! i) < 2 ^ 50"
  defines "d \<equiv> load_data files"
  defines "n \<equiv> length (files ! i)"
  defines "k \<equiv> 15 * n div 100"
  shows "length (dt d) = N d"
    and "n \<le> N d"
    and "dttrain d ! i = take (n - 2 * k) (dt d)"
    and "dtdev d ! i = take k (drop (n - 2 * k) (dt d))"
    and "dttest d ! i = take (N d - 1 - (n - k)) (drop (n - k) (dt d))"
proof -
  have le: "2 * k \<le> n" unfolding k_def by (rule dev_fraction_le)
  have li: "loop_items d ! i = (i, int k, int (n - 2 * k))"
    unfolding d_def k_def n_def using i n by (rule loop_item_at)
  have len: "i < length (loop_items d)" using i by (simp add: d_def length_loop_items)
  show ld: "length (dt d) = N d" by (simp add: d_def load_fields)
  have "length (files ! i) \<in> set (map length files)" using i by simp
  then have "length (files ! i) \<le> sum_list (map length files)"
    by (rule member_le_sum_list) simp
  then show "n \<le> N d" by (simp add: d_def load_fields n_def)
  show "dttrain d ! i = take (n - 2 * k) (dt d)"
    using len li by (simp add: dttrain_def py_slice_to)
  show "dtdev d ! i = take k (drop (n - 2 * k) (dt d))"
    using len li by (simp add: dtdev_def py_slice_from_to nat_add_distrib)
  have e: "int (n - 2 * k) + int k = int (n - k)" using le by simp
  have "dttest d ! i = py_slice (dt d) (Some (int (n - k))) (Some (- 1))"
    using len li by (simp add: dttest_def e)
  also have "\<dots> = take (N d - 1 - (n - k)) (drop (n - k) (dt d))"
    by (simp add: py_slice_from_but_last ld)
  finally show "dttest d ! i = take (N d - 1 - (n - k)) (drop (n - k) (dt d))" .
qed


lemma nth_take_drop:
  assumes "j < length (take m (drop a xs))"
  shows "take m (drop a xs) ! j = xs ! (a + j)"
proof -
  from assms have "j < m" and "j < length xs - a" by simp_all
  then have "a \<le> length xs" by simp
  from \<open>j < m\<close> have "take m (drop a xs) ! j = drop a xs ! j" by simp
  also have "\<dots> = xs ! (a + j)" using \<open>a \<le> length xs\<close> by (rule nth_drop)
  finally show ?thesis .
qed

lemma nth_drop_shift:
  assumes "j < length (drop a xs)"
  shows "drop a xs ! j = xs ! (a + j)"
proof -
  from assms have "a \<le> length xs" by simp
  then show ?thesis by (rule nth_drop)
qed

lemma next_step_alignment:
  assumes i: "i < length files" and n: "length (files ! i) < 2 ^ 50"
  defines "d \<equiv> load_data files"
  defines "n \<equiv> length (files ! i)"
  defines "k \<equiv> 15 * n div 100"
  shows "j < length (Xtrain d ! i) \<Longrightarrow> Xtrain d ! i ! j = X d ! i ! j"
    and "j < length (Ytrain d ! i) \<Longrightarrow> Ytrain d ! i ! j = Y d ! i ! (j + 1)"
    and "j < length (ttrain d ! i) \<Longrightarrow> ttrain d ! i ! j = t d ! i ! (j + 1)"
    and "j < length (Xdev d ! i) \<Longrightarrow> Xdev d ! i ! j = X d ! i ! (n - 2 * k + j)"
    and "j < length (Ydev d ! i) \<Longrightarrow> Ydev d ! i ! j = Y d ! i ! (n - 2 * k + j + 1)"
    and "j < length (tdev d ! i) \<Longrightarrow> tdev d ! i ! j = t d ! i ! (n - 2 * k + j + 1)"
    and "j < length (Xtest d ! i) \<Longrightarrow> Xtest d ! i ! j = X d ! i ! (n - k + j)"
    and "j < length (Ytest d ! i) \<Longrightarrow> Ytest d ! i ! j = Y d ! i ! (n - k + j + 1)"
    and "j < length (ttest d ! i) \<Longrightarrow> ttest d ! i ! j = t d ! i ! (n - k + j + 1)"
    and "length (dttrain d ! i) = length (Xtrain d ! i)"
    and "length (dtdev d ! i) = length (Xdev d ! i)"
proof -
  note sl = split_slices[OF i n]
  note ol = output_slices[OF i n]
  note il = interval_slices[OF i n]
  have le: "2 * (15 * length (files ! i) div 100) \<le> length (files ! i)"
    by (rule dev_fraction_le)
  show "j < length (Xtrain d ! i) \<Longrightarrow> Xtrain d ! i ! j = X d ! i ! j"
    unfolding d_def n_def k_def sl(5) by simp
  show "j < length (Ytrain d ! i) \<Longrightarrow> Ytrain d ! i ! j = Y d ! i ! (j + 1)"
    unfolding d_def n_def k_def ol(2) by (drule nth_take_drop) simp
  show "j < length (ttrain d ! i) \<Longrightarrow> ttrain d ! i ! j = t d ! i ! (j + 1)"
    unfolding d_def n_def k_def ol(6) by (drule nth_take_drop) simp
  show "j < length (Xdev d ! i) \<Longrightarrow> Xdev d ! i ! j = X d ! i ! (n - 2 * k + j)"
    unfolding d_def n_def k_def sl(6) by (rule nth_take_drop)
  show "j < length (Ydev d ! i) \<Longrightarrow> Ydev d ! i ! j = Y d ! i ! (n - 2 * k + j + 1)"
    unfolding d_def n_def k_def ol(3) by (drule nth_take_drop) (simp add: ac_simps)
  show "j < length (tdev d ! i) \<Longrightarrow> tdev d ! i ! j = t d ! i ! (n - 2 * k + j + 1)"
    unfolding d_def n_def k_def ol(7) by (drule nth_take_drop) (simp add: ac_simps)
  show "j < length (Xtest d ! i) \<Longrightarrow> Xtest d ! i ! j = X d ! i ! (n - k + j)"
    unfolding d_def n_def k_def sl(7) by (rule nth_take_drop)
  show "j < length (Ytest d ! i) \<Longrightarrow> Ytest d ! i ! j = Y d ! i ! (n - k + j + 1)"
    unfolding d_def n_def k_def ol(4) by (drule nth_drop_shift) (simp add: ac_simps)
  show "j < length (ttest d ! i) \<Longrightarrow> ttest d ! i ! j = t d ! i ! (n - k + j + 1)"
    unfolding d_def n_def k_def ol(8) by (drule nth_drop_shift) (simp add: ac_simps)
  show "length (dttrain d ! i) = length (Xtrain d ! i)"
    unfolding d_def n_def k_def il(3) sl(5) using il(1,2) sl(4) by simp
  show "length (dtdev d ! i) = length (Xdev d ! i)"
    unfolding d_def n_def k_def il(4) sl(6) using il(1,2) sl(4) le by simp
qed

section \<open>Claims about the dataset split\<close>

text \<open>
  C1. The claim: in each of the three splits the output and timestamp slices are the input
  slice shifted by one sample, and the interval slice handed to the model has the length
  of the split's input slice, for every trajectory of a dataset with several trajectories.
  The shift by one sample and the interval slices of the train and dev splits are as
  claimed (\<open>next_step_alignment\<close>). The interval slice of the test split is not: it is cut
  from the pooled interval array, whose length is the sum of all trajectory lengths. For
  two trajectories of 20 samples each the test input slice has 2 rows and the test interval
  slice has 22.
\<close>

theorem test_interval_slice_misaligned:
  "length (Xtest (load_data two_files) ! 0) = 2
   \<and> length (dttest (load_data two_files) ! 0) = 22
   \<and> length (Xtest (load_data two_files) ! 1) = 2
   \<and> length (dttest (load_data two_files) ! 1) = 22"
  using split_slices[of 0 two_files] split_slices[of 1 two_files]
    interval_slices[of 0 two_files] interval_slices[of 1 two_files]
  by (simp add: load_fields two_files_def)




lemma foldl_np_add_Fin: "foldl np_add (Fin a) (map Fin xs) = Fin (a + sum_list xs)"
  by (induction xs arbitrary: a) (simp_all add: add.assoc)

lemma np_sum_Fin: "np_sum (map Fin xs) = Fin (sum_list xs)"
  by (simp add: np_sum_def foldl_np_add_Fin)








section \<open>Claims about the construction of the model\<close>






text \<open>
  C6, as stated. The claim: an incompatible combination of \<^verbatim>\<open>model\<close> and
  \<^verbatim>\<open>time_aware\<close> makes the construction fail with a configuration error instead of
  falling back to some cell. No combination that the command line accepts is rejected by
  the selection: each of the twelve yields a cell.
\<close>

theorem cell_selection_counterexample:
  "select_cell_factory (default_paras\<lparr>model := ''GRU'', time_aware := ''no''\<rparr>) = Inr GRUCell
   \<and> select_cell_factory (default_paras\<lparr>model := ''GRU'', time_aware := ''input''\<rparr>) = Inr HOGRUCell
   \<and> select_cell_factory (default_paras\<lparr>model := ''GRU'', time_aware := ''variable''\<rparr>) = Inr HOGRUCell
   \<and> select_cell_factory (default_paras\<lparr>model := ''GRUinc'', time_aware := ''no''\<rparr>) = Inr IncrHOGRUCell
   \<and> select_cell_factory (default_paras\<lparr>model := ''GRUinc'', time_aware := ''input''\<rparr>) = Inr IncrHOGRUCell
   \<and> select_cell_factory (default_paras\<lparr>model := ''GRUinc'', time_aware := ''variable''\<rparr>) = Inr IncrHOGRUCell
   \<and> select_cell_factory (default_paras\<lparr>model := ''ARNN'', time_aware := ''no''\<rparr>) = Inr HOARNNCell
   \<and> select_cell_factory (default_paras\<lparr>model := ''ARNN'', time_aware := ''input''\<rparr>) = Inr HOARNNCell
   \<and> select_cell_factory (default_paras\<lparr>model := ''ARNN'', time_aware := ''variable''\<rparr>) = Inr HOARNNCell
   \<and> select_cell_factory (default_paras\<lparr>model := ''ARNNinc'', time_aware := ''no''\<rparr>) = Inr IncrHOARNNCell
   \<and> select_cell_factory (default_paras\<lparr>model := ''ARNNinc'', time_aware := ''input''\<rparr>) = Inr IncrHOARNNCell
   \<and> select_cell_factory (default_paras\<lparr>model := ''ARNNinc'', time_aware := ''variable''\<rparr>) = Inr IncrHOARNNCell"
  by (simp add: select_cell_factory_def default_paras_def)

text \<open>
  C6, amended. For every \<^verbatim>\<open>model\<close> among the command line's choices the selection
  yields a cell and never an error, whatever \<^verbatim>\<open>time_aware\<close> is. The plain cell is chosen
  exactly for \<^verbatim>\<open>model = GRU\<close> with \<^verbatim>\<open>time_aware = no\<close>. For the other three models
  \<^verbatim>\<open>time_aware\<close> changes neither the cell nor any argument of the model's constructor,
  and for \<^verbatim>\<open>GRU\<close> only whether it is \<^verbatim>\<open>no\<close> matters.
\<close>

theorem cell_selection_never_rejects:
  assumes "model p \<in> set model_choices"
  shows "\<not> isl (select_cell_factory p)
    \<and> (select_cell_factory p = Inr GRUCell \<longleftrightarrow> model p = ''GRU'' \<and> time_aware p = ''no'')
    \<and> (model p \<noteq> ''GRU'' \<longrightarrow>
          select_cell_factory (p\<lparr>time_aware := ta\<rparr>) = select_cell_factory p
          \<and> model_arguments (p\<lparr>time_aware := ta\<rparr>) d = model_arguments p d)
    \<and> (model p = ''GRU'' \<and> time_aware p \<noteq> ''no'' \<and> ta \<noteq> ''no'' \<longrightarrow>
          model_arguments (p\<lparr>time_aware := ta\<rparr>) d = model_arguments p d)"
  using assms
  by (auto simp: select_cell_factory_def model_arguments_def model_choices_def
      split: sum.splits)

theorem cell_selection_never_rejects_witness:
  "model (default_paras\<lparr>model := ''ARNN'', time_aware := ''no''\<rparr>) \<in> set model_choices
   \<and> model (default_paras\<lparr>model := ''ARNN'', time_aware := ''no''\<rparr>) \<noteq> ''GRU''
   \<and> \<not> isl (select_cell_factory (default_paras\<lparr>model := ''ARNN'', time_aware := ''no''\<rparr>))
   \<and> select_cell_factory (default_paras\<lparr>model := ''ARNN'', time_aware := ''variable''\<rparr>)
       = select_cell_factory (default_paras\<lparr>model := ''ARNN'', time_aware := ''no''\<rparr>)
   \<and> model_arguments (default_paras\<lparr>model := ''ARNN'', time_aware := ''variable''\<rparr>) (load_data two_files)
       = model_arguments (default_paras\<lparr>model := ''ARNN'', time_aware := ''no''\<rparr>) (load_data two_files)
   \<and> model default_paras = ''GRU'' \<and> time_aware default_paras \<noteq> ''no''
   \<and> model_arguments (default_paras\<lparr>time_aware := ''input''\<rparr>) (load_data two_files)
       = model_arguments default_paras (load_data two_files)"
  using cell_selection_never_rejects[of "default_paras\<lparr>model := ''ARNN'', time_aware := ''no''\<rparr>"
      "''variable''" "load_data two_files"]
    cell_selection_never_rejects[of default_paras "''input''" "load_data two_files"]
  by (simp add: default_paras_def model_choices_def)

section \<open>Claims about the start of the program\<close>

lemma is_substring_iff: "is_substring p s \<longleftrightarrow> (\<exists>a b. s = a @ p @ b)"
proof (induction s)
  case Nil
  then show ?case by auto
next
  case (Cons c cs)
  show ?case
  proof
    assume "is_substring p (c # cs)"
    then consider "prefix p (c # cs)" | "is_substring p cs" by auto
    then show "\<exists>a b. c # cs = a @ p @ b"
    proof cases
      case 1
      then obtain b where "c # cs = p @ b" by (auto simp: prefix_def)
      then have "c # cs = [] @ p @ b" by simp
      then show ?thesis by blast
    next
      case 2
      with Cons.IH obtain a b where "cs = a @ p @ b" by blast
      then have "c # cs = (c # a) @ p @ b" by simp
      then show ?thesis by blast
    qed
  next
    assume "\<exists>a b. c # cs = a @ p @ b"
    then obtain a b where ab: "c # cs = a @ p @ b" by blast
    show "is_substring p (c # cs)"
    proof (cases a)
      case Nil
      with ab have "prefix p (c # cs)" by (simp add: prefix_def)
      then show ?thesis by simp
    next
      case (Cons a0 as)
      with ab have "cs = as @ p @ b" by simp
      with Cons.IH have "is_substring p cs" by blast
      then show ?thesis by simp
    qed
  qed
qed




section \<open>Claims about the evaluation function\<close>

lemma length_foldl_map2:
  "list_all (\<lambda>row. length row = length acc) rows \<Longrightarrow> length (foldl (map2 np_add) acc rows) = length acc"
  by (induction rows arbitrary: acc) simp_all

lemma foldl_map2_nth:
  "list_all (\<lambda>row. length row = length acc) rows \<Longrightarrow> c < length acc \<Longrightarrow>
   foldl (map2 np_add) acc rows ! c = foldl np_add (acc ! c) (map (\<lambda>row. row ! c) rows)"
  by (induction rows arbitrary: acc) simp_all

lemma length_sum_axis0:
  "list_all (\<lambda>row. length row = C) rows \<Longrightarrow> length (sum_axis0 C rows) = C"
  using length_foldl_map2[of "replicate C (Fin 0)" rows] by (simp add: sum_axis0_def)

lemma sum_axis0_nth:
  "list_all (\<lambda>row. length row = C) rows \<Longrightarrow> c < C \<Longrightarrow>
   sum_axis0 C rows ! c = np_sum (map (\<lambda>row. row ! c) rows)"
  using foldl_map2_nth[of "replicate C (Fin 0)" rows c] by (simp add: sum_axis0_def np_sum_def)

lemma map_index: "map f xs = map (\<lambda>i. f (xs ! i)) [0 ..< length xs]"
  by (rule nth_equalityI) simp_all

lemma sum_axis0_channels:
  assumes "list_all (\<lambda>row. length row = C) rows"
  shows "sum_axis0 C rows = map (\<lambda>c. np_sum (map (\<lambda>i. rows ! i ! c) [0 ..< length rows])) [0 ..< C]"
proof (rule nth_equalityI)
  show "length (sum_axis0 C rows) = length (map (\<lambda>c. np_sum (map (\<lambda>i. rows ! i ! c) [0 ..< length rows])) [0 ..< C])"
    using assms by (simp add: length_sum_axis0)
next
  fix c assume "c < length (sum_axis0 C rows)"
  then have c: "c < C" using assms by (simp add: length_sum_axis0)
  have "sum_axis0 C rows ! c = np_sum (map (\<lambda>row. row ! c) rows)"
    using assms c by (rule sum_axis0_nth)
  also have "map (\<lambda>row. row ! c) rows = map (\<lambda>i. rows ! i ! c) [0 ..< length rows]"
    by (rule map_index)
  finally show "sum_axis0 C rows ! c = map (\<lambda>c. np_sum (map (\<lambda>i. rows ! i ! c) [0 ..< length rows])) [0 ..< C] ! c"
    using c by simp
qed

lemma wf_rows:
  assumes "wf_ndarray a"
  shows "length (data a) = fst (shape a)"
    and "list_all (\<lambda>row. length row = snd (shape a)) (data a)"
    and "i < fst (shape a) \<Longrightarrow> length (data a ! i) = snd (shape a)"
  using assms by (simp_all add: wf_ndarray_def list_all_length)

lemma mean_axis0_channels:
  assumes "wf_ndarray truth"
  shows "mean_axis0 truth = map (channel_mean truth) [0 ..< snd (shape truth)]"
  unfolding mean_axis0_def sum_axis0_channels[OF wf_rows(2)[OF assms]]
  by (simp add: channel_mean_def entry_def wf_rows(1)[OF assms])

lemma squared_error_channels:
  assumes "wf_ndarray truth" "wf_ndarray prediction" "shape truth = shape prediction"
  shows "sum_axis0 (snd (shape truth))
           (map (map np_square) (map2 (map2 np_sub) (data truth) (data prediction)))
         = map (channel_squared_error truth prediction) [0 ..< snd (shape truth)]"
proof -
  let ?rows = "map (map np_square) (map2 (map2 np_sub) (data truth) (data prediction))"
  let ?T = "fst (shape truth)" and ?C = "snd (shape truth)"
  have lT: "length (data truth) = ?T" "length (data prediction) = ?T"
    using assms wf_rows(1) by auto
  have lr: "length ?rows = ?T" using lT by simp
  have row: "?rows ! i = map (\<lambda>c. np_square (np_sub (entry truth i c) (entry prediction i c))) [0 ..< ?C]"
    if "i < ?T" for i
  proof -
    have l1: "length (data truth ! i) = ?C" using that assms(1) by (simp add: wf_rows)
    have l2: "length (data prediction ! i) = ?C" using that assms(2,3) by (simp add: wf_rows)
    show ?thesis
      by (rule nth_equalityI) (use that lT l1 l2 in \<open>simp_all add: entry_def\<close>)
  qed
  have all: "list_all (\<lambda>row. length row = ?C) ?rows"
    unfolding list_all_length using row lr by simp
  have "sum_axis0 ?C ?rows = map (\<lambda>c. np_sum (map (\<lambda>i. ?rows ! i ! c) [0 ..< length ?rows])) [0 ..< ?C]"
    using all by (rule sum_axis0_channels)
  also have "\<dots> = map (channel_squared_error truth prediction) [0 ..< ?C]"
    unfolding lr channel_squared_error_def
    by (intro map_cong refl arg_cong[where f = np_sum]) (simp add: row del: map_map)
  finally show ?thesis .
qed

lemma denominator_channels:
  assumes "wf_ndarray truth"
  shows "np_sum (concat (map (map np_square)
            (map (\<lambda>row. map2 np_sub row (mean_axis0 truth)) (data truth))))
         = global_denominator truth"
proof -
  let ?T = "fst (shape truth)" and ?C = "snd (shape truth)"
  have lT: "length (data truth) = ?T" using assms by (simp add: wf_rows)
  have row: "map np_square (map2 np_sub (data truth ! i) (mean_axis0 truth))
      = map (\<lambda>c. np_square (np_sub (entry truth i c) (channel_mean truth c))) [0 ..< ?C]"
    if "i < ?T" for i
  proof -
    have l1: "length (data truth ! i) = ?C" using that assms by (simp add: wf_rows)
    show ?thesis
      by (rule nth_equalityI)
        (use that l1 in \<open>simp_all add: entry_def mean_axis0_channels[OF assms]\<close>)
  qed
  have "map (map np_square) (map (\<lambda>row. map2 np_sub row (mean_axis0 truth)) (data truth))
      = map (\<lambda>i. map (\<lambda>c. np_square (np_sub (entry truth i c) (channel_mean truth c))) [0 ..< ?C])
          [0 ..< ?T]"
    by (rule nth_equalityI) (simp_all add: lT row del: map_map)
  then show ?thesis by (simp only: global_denominator_def)
qed

lemma prediction_error_unfolded:
  assumes "wf_ndarray truth" and "wf_ndarray prediction" and "shape truth = shape prediction"
  shows "prediction_error truth prediction = Inr (rrse_percent truth prediction)"
proof -
  have "prediction_error truth prediction =
      Inr (np_mul (Fin 100) (np_mean (map np_sqrt
        (map (\<lambda>s. np_div s (global_denominator truth))
           (map (channel_squared_error truth prediction) [0 ..< snd (shape truth)])))))"
    unfolding prediction_error_def Let_def
      squared_error_channels[OF assms] denominator_channels[OF assms(1)]
    using assms(3) by (simp only: if_False not_not not_True_eq_False refl)
  then show ?thesis by (simp add: rrse_percent_def comp_def)
qed



lemma upt_2: "[0 ..< 2] = [0, 1]" "[0 ..< 1] = [0]"
  by (simp_all add: upt_rec)

lemma rrse_toy: "rrse_percent toy_truth toy_prediction = Fin 100"
  by (simp add: upt_2 rrse_percent_def toy_truth_def toy_prediction_def channel_squared_error_def
      global_denominator_def channel_mean_def entry_def np_mean_def np_sum_def np_square_def
      np_sub_def)


lemma sum_list_upt: "sum_list (map f [0 ..< n]) = (\<Sum>i<n. f i)" for f :: "nat \<Rightarrow> real"
  by (simp add: interv_sum_list_conv_sum_set_nat atLeast0LessThan)

lemma np_sum_Fin_upt: "np_sum (map (\<lambda>i. Fin (f i)) [0 ..< n]) = Fin (\<Sum>i<n. f i)"
proof -
  have "map (\<lambda>i. Fin (f i)) [0 ..< n] = map Fin (map f [0 ..< n])" by simp
  then show ?thesis by (simp only: np_sum_Fin sum_list_upt)
qed

lemma entry_of_reals:
  "entry (of_reals rows C) i c = (map (map Fin) rows) ! i ! c"
  by (simp add: entry_def of_reals_def)

lemma entry_of_reals_Fin:
  assumes "list_all (\<lambda>row. length row = C) rows" "i < length rows" "c < C"
  shows "entry (of_reals rows C) i c = Fin (rows ! i ! c)"
  using assms by (simp add: entry_of_reals list_all_length)

lemma shape_of_reals [simp]: "shape (of_reals rows C) = (length rows, C)"
  by (simp add: of_reals_def)

lemma wf_of_reals:
  "list_all (\<lambda>row. length row = C) rows \<Longrightarrow> wf_ndarray (of_reals rows C)"
  by (simp add: wf_ndarray_def of_reals_def list_all_length)

lemma channel_squared_error_real:
  assumes "list_all (\<lambda>row. length row = C) rows" "list_all (\<lambda>row. length row = C) prows"
    and "length prows = length rows" "c < C"
  shows "channel_squared_error (of_reals rows C) (of_reals prows C) c
         = Fin (squared_error rows prows c)"
proof -
  have eq: "map (\<lambda>i. np_square (np_sub (entry (of_reals rows C) i c) (entry (of_reals prows C) i c)))
          [0 ..< length rows]
      = map (\<lambda>i. Fin ((rows ! i ! c - prows ! i ! c)\<^sup>2)) [0 ..< length rows]"
    using assms
    by (intro map_cong refl)
      (simp add: entry_of_reals_Fin np_square_def np_sub_def power2_eq_square)
  show ?thesis
    unfolding channel_squared_error_def squared_error_def shape_of_reals fst_conv eq
    by (rule np_sum_Fin_upt)
qed

lemma channel_mean_real:
  assumes "list_all (\<lambda>row. length row = C) rows" "c < C" "rows \<noteq> []"
  shows "channel_mean (of_reals rows C) c = Fin (column_mean rows c)"
proof -
  have eq: "map (\<lambda>i. entry (of_reals rows C) i c) [0 ..< length rows]
      = map (\<lambda>i. Fin (rows ! i ! c)) [0 ..< length rows]"
    using assms by (intro map_cong refl) (simp add: entry_of_reals_Fin)
  show ?thesis
    unfolding channel_mean_def column_mean_def shape_of_reals fst_conv eq np_sum_Fin_upt
    using assms(3) by simp
qed

lemma sum_list_concat_real: "sum_list (concat xss) = sum_list (map sum_list xss)"
  for xss :: "real list list"
  by (induction xss) simp_all

lemma np_sum_concat_Fin:
  "np_sum (concat (map (\<lambda>i. map (\<lambda>c. Fin (g i c)) [0 ..< C]) [0 ..< T]))
   = Fin (\<Sum>i<T. \<Sum>c<C. g i c)"
proof -
  have "concat (map (\<lambda>i. map (\<lambda>c. Fin (g i c)) [0 ..< C]) [0 ..< T])
      = map Fin (concat (map (\<lambda>i. map (g i) [0 ..< C]) [0 ..< T]))"
    by (simp add: map_concat comp_def)
  then have "np_sum (concat (map (\<lambda>i. map (\<lambda>c. Fin (g i c)) [0 ..< C]) [0 ..< T]))
      = Fin (sum_list (concat (map (\<lambda>i. map (g i) [0 ..< C]) [0 ..< T])))"
    by (simp only: np_sum_Fin)
  also have "sum_list (concat (map (\<lambda>i. map (g i) [0 ..< C]) [0 ..< T]))
      = sum_list (map (\<lambda>i. \<Sum>c<C. g i c) [0 ..< T])"
    by (simp add: sum_list_concat_real comp_def sum_list_upt)
  also have "\<dots> = (\<Sum>i<T. \<Sum>c<C. g i c)" by (rule sum_list_upt)
  finally show ?thesis .
qed

lemma global_denominator_real:
  assumes "list_all (\<lambda>row. length row = C) rows"
  shows "global_denominator (of_reals rows C) = Fin (centred_sum_of_squares rows C)"
proof (cases "rows = []")
  case True
  then show ?thesis
    by (simp add: global_denominator_def centred_sum_of_squares_def np_sum_def)
next
  case False
  let ?g = "\<lambda>i c. (rows ! i ! c - column_mean rows c)\<^sup>2"
  have "concat (map (\<lambda>i. map (\<lambda>c. np_square (np_sub (entry (of_reals rows C) i c)
                                       (channel_mean (of_reals rows C) c))) [0 ..< C])
          [0 ..< length rows])
      = concat (map (\<lambda>i. map (\<lambda>c. Fin (?g i c)) [0 ..< C]) [0 ..< length rows])"
    using assms False
    by (intro arg_cong[where f = concat] map_cong refl)
      (simp add: entry_of_reals_Fin channel_mean_real np_square_def np_sub_def power2_eq_square)
  then have "global_denominator (of_reals rows C)
      = np_sum (concat (map (\<lambda>i. map (\<lambda>c. Fin (?g i c)) [0 ..< C]) [0 ..< length rows]))"
    unfolding global_denominator_def shape_of_reals fst_conv snd_conv by (rule arg_cong)
  also have "\<dots> = Fin (\<Sum>i<length rows. \<Sum>c<C. ?g i c)"
    by (rule np_sum_concat_Fin)
  finally show ?thesis by (simp add: centred_sum_of_squares_def)
qed


lemma squared_error_nonneg: "0 \<le> squared_error rows prows c"
  by (simp add: squared_error_def sum_nonneg)

lemma centred_sum_of_squares_nonneg: "0 \<le> centred_sum_of_squares rows C"
  by (simp add: centred_sum_of_squares_def sum_nonneg)

lemma rrse_percent_real:
  assumes "list_all (\<lambda>row. length row = C) rows" "list_all (\<lambda>row. length row = C) prows"
    and "length prows = length rows"
    and "centred_sum_of_squares rows C \<noteq> 0" and "0 < C"
  shows "rrse_percent (of_reals rows C) (of_reals prows C)
         = Fin (100 * ((\<Sum>c<C. sqrt (squared_error rows prows c / centred_sum_of_squares rows C))
                       / real C))"
proof -
  let ?D = "centred_sum_of_squares rows C"
  have Dpos: "0 < ?D" using assms(4) centred_sum_of_squares_nonneg[of rows C] by simp
  have eq: "map (\<lambda>c. np_sqrt (np_div (channel_squared_error (of_reals rows C) (of_reals prows C) c)
                               (global_denominator (of_reals rows C)))) [0 ..< C]
      = map (\<lambda>c. Fin (sqrt (squared_error rows prows c / ?D))) [0 ..< C]"
  proof (intro map_cong refl)
    fix c assume "c \<in> set [0 ..< C]"
    then have c: "c < C" by simp
    have "0 \<le> squared_error rows prows c / ?D"
      using squared_error_nonneg Dpos by simp
    then show "np_sqrt (np_div (channel_squared_error (of_reals rows C) (of_reals prows C) c)
                               (global_denominator (of_reals rows C)))
             = Fin (sqrt (squared_error rows prows c / ?D))"
      using assms(4)
      by (simp add: channel_squared_error_real[OF assms(1,2,3) c]
          global_denominator_real[OF assms(1)])
  qed
  show ?thesis
    unfolding rrse_percent_def shape_of_reals snd_conv eq np_mean_def np_sum_Fin_upt
    using assms(5) by simp
qed
















lemma prediction_error_real:
  assumes "list_all (\<lambda>row. length row = C) rows" "list_all (\<lambda>row. length row = C) prows"
    and "length prows = length rows"
    and "centred_sum_of_squares rows C \<noteq> 0" and "0 < C"
  shows "prediction_error (of_reals rows C) (of_reals prows C)
         = Inr (Fin (100 * ((\<Sum>c<C. sqrt (squared_error rows prows c / centred_sum_of_squares rows C))
                            / real C)))"
proof -
  have "prediction_error (of_reals rows C) (of_reals prows C)
      = Inr (rrse_percent (of_reals rows C) (of_reals prows C))"
    using assms(1,2,3) by (intro prediction_error_unfolded wf_of_reals) simp_all
  then show ?thesis by (simp only: rrse_percent_real[OF assms])
qed



section \<open>Properties of an evaluation pass\<close>

lemma forward_calls_append [simp]:
  "forward_calls (xs @ ys) = forward_calls xs @ forward_calls ys"
  by (induction xs rule: forward_calls.induct) simp_all

lemma snapshots_append [simp]: "snapshots (xs @ ys) = snapshots xs @ snapshots ys"
  by (induction xs rule: snapshots.induct) simp_all

lemma new_events_append [simp]: "new_events s (s\<lparr>trace := trace s @ evs\<rparr>) = evs"
  by (simp add: new_events_def)

lemma new_events_self [simp]: "new_events s s = []"
  by (simp add: new_events_def)

lemmas step_defs = seq_def call_def emits_def ret_def assign_def

lemma new_events_append2 [simp]:
  "new_events s (s\<lparr>trace := trace s @ evs\<rparr>\<lparr>trace := trace s @ evs @ evs'\<rparr>) = evs @ evs'"
  by (simp add: new_events_def)

lemma forecasts_result:
  assumes "forecasts env targets m s = (r, s')"
  shows "s' = s\<lparr>trace := trace s @ new_events s s'\<rparr>"
    and "snapshots (new_events s s') = []"
    and "forward_calls (new_events s s') \<noteq> []"
    and "prefix (forward_calls (new_events s s')) (threaded_calls env m)"
    and "r = Inr (etr, md, Yd, Hd, ed) \<Longrightarrow>
           \<exists>Ytr Htr. forward env m Train None = Inr (Ytr, Htr) \<and> Htr \<noteq> []
              \<and> forward env m Dev (Some (last Htr)) = Inr (Yd, Hd)
              \<and> py_prediction_error (targets Dev) (t2np env Yd) = Inr ed
              \<and> forward_calls (new_events s s') = [(Train, None), (Dev, Some (last Htr))]"
  using assms unfolding forecasts_def threaded_calls_def step_defs last_state_def
  by (auto split: sum.splits prod.splits if_splits)

lemma forecasts_fields:
  assumes "forecasts env targets m s = (r, s')"
  shows "net s' = net s" and "best_dev_error s' = best_dev_error s"
    and "best_dev_epoch s' = best_dev_epoch s" and "error_test s' = error_test s"
    and "trace s' = trace s @ new_events s s'"
  by (subst forecasts_result(1)[OF assms], simp)+

lemma update_best_result:
  assumes "update_best env targets epoch m Yd Hd ed s = (r, s')"
  shows "trace s' = trace s @ new_events s s'"
    and "net s' = net s"
    and "best_dev_error s' = ed" and "best_dev_epoch s' = epoch"
    and "r \<noteq> Inr True"
    and "forward_calls (new_events s s') = (if Hd = [] then [] else [(Test, Some (last Hd))])"
    and "isl r \<Longrightarrow> snapshots (new_events s s') = []"
    and "\<not> isl r \<Longrightarrow>
           \<exists>Yt Ht. Hd \<noteq> [] \<and> forward env m Test (Some (last Hd)) = Inr (Yt, Ht)
              \<and> py_prediction_error (targets Test) (t2np env Yt) = Inr (error_test s')
              \<and> snapshots (new_events s s') = [TorchSave m, PickleDump Yd Yt]
              \<and> LogValue ''dev/best_error'' ed epoch \<in> set (new_events s s')
              \<and> LogValue ''test/corresp_error'' (error_test s') epoch \<in> set (new_events s s')"
  using assms unfolding update_best_def step_defs last_state_def new_events_def
  by (auto split: sum.splits prod.splits if_splits)

lemma reports_silent [simp]:
  "forward_calls (reports epoch a b c d) = []" "snapshots (reports epoch a b c d) = []"
  by (simp_all add: reports_def)

lemma evaluation_unfold:
  "evaluation env targets epoch mse_train s =
     (case forecasts env targets (net s) s of
        (Inl e, s1) \<Rightarrow> (Inl e, s1)
      | (Inr (error_train, mse_dev, Ydev_pred, hdev_pred, error_dev), s1) \<Rightarrow>
          (let s2 = s1\<lparr>trace := trace s1 @ reports epoch mse_train error_train mse_dev error_dev\<rparr>
           in if np_less error_dev (best_dev_error s)
              then update_best env targets epoch (net s) Ydev_pred hdev_pred error_dev s2
              else if int epoch - int (best_dev_epoch s) > max_epochs_no_decrease
              then (Inr True,
                    s2\<lparr>trace := trace s2 @
                       [Logging ''Development error did not decrease -- quitting'']\<rparr>)
              else (Inr False, s2)))"
proof (cases "forecasts env targets (net s) s")
  case (Pair r1 s1)
  note f = forecasts_fields[OF Pair]
  show ?thesis
    unfolding evaluation_def step_defs Pair
    by (cases r1) (auto simp: Let_def f split: prod.splits)
qed


lemma new_events_trans:
  assumes "trace s1 = trace s @ evs1" and "trace s2 = trace s1 @ evs2"
  shows "new_events s s2 = evs1 @ evs2" and "trace s2 = trace s @ new_events s s2"
  using assms by (simp_all add: new_events_def)

lemma evaluation_result:
  assumes ev: "evaluation env targets epoch mse_train s = (r, s')"
  shows "trace s' = trace s @ new_events s s'"
    and "net s' = net s"
    and "forward_calls (new_events s s') \<noteq> []"
    and "prefix (forward_calls (new_events s s')) (threaded_calls env (net s))"
    and "\<not> isl r \<Longrightarrow> 2 \<le> length (forward_calls (new_events s s'))"
    and "isl r \<Longrightarrow> snapshots (new_events s s') = []"
    and "r = Inr b \<Longrightarrow>
         \<exists>Ytr Htr Yd Hd ed.
           forward env (net s) Train None = Inr (Ytr, Htr) \<and> Htr \<noteq> []
           \<and> forward env (net s) Dev (Some (last Htr)) = Inr (Yd, Hd)
           \<and> py_prediction_error (targets Dev) (t2np env Yd) = Inr ed
           \<and> (if np_less ed (best_dev_error s)
               then \<not> b \<and> best_dev_error s' = ed \<and> best_dev_epoch s' = epoch
                    \<and> (\<exists>Yt Ht. Hd \<noteq> []
                          \<and> forward env (net s) Test (Some (last Hd)) = Inr (Yt, Ht)
                          \<and> py_prediction_error (targets Test) (t2np env Yt) = Inr (error_test s')
                          \<and> snapshots (new_events s s') = [TorchSave (net s), PickleDump Yd Yt])
                    \<and> forward_calls (new_events s s')
                        = [(Train, None), (Dev, Some (last Htr)), (Test, Some (last Hd))]
               else best_dev_error s' = best_dev_error s
                    \<and> best_dev_epoch s' = best_dev_epoch s
                    \<and> error_test s' = error_test s
                    \<and> snapshots (new_events s s') = []
                    \<and> forward_calls (new_events s s') = [(Train, None), (Dev, Some (last Htr))]
                    \<and> (b \<longleftrightarrow> max_epochs_no_decrease < int epoch - int (best_dev_epoch s)))"
proof -
  let ?new = "new_events s s'"
  let ?Q = "\<lambda>b. \<exists>Ytr Htr Yd Hd ed.
           forward env (net s) Train None = Inr (Ytr, Htr) \<and> Htr \<noteq> []
           \<and> forward env (net s) Dev (Some (last Htr)) = Inr (Yd, Hd)
           \<and> py_prediction_error (targets Dev) (t2np env Yd) = Inr ed
           \<and> (if np_less ed (best_dev_error s)
               then \<not> b \<and> best_dev_error s' = ed \<and> best_dev_epoch s' = epoch
                    \<and> (\<exists>Yt Ht. Hd \<noteq> []
                          \<and> forward env (net s) Test (Some (last Hd)) = Inr (Yt, Ht)
                          \<and> py_prediction_error (targets Test) (t2np env Yt) = Inr (error_test s')
                          \<and> snapshots (new_events s s') = [TorchSave (net s), PickleDump Yd Yt])
                    \<and> forward_calls (new_events s s')
                        = [(Train, None), (Dev, Some (last Htr)), (Test, Some (last Hd))]
               else best_dev_error s' = best_dev_error s
                    \<and> best_dev_epoch s' = best_dev_epoch s
                    \<and> error_test s' = error_test s
                    \<and> snapshots (new_events s s') = []
                    \<and> forward_calls (new_events s s') = [(Train, None), (Dev, Some (last Htr))]
                    \<and> (b \<longleftrightarrow> max_epochs_no_decrease < int epoch - int (best_dev_epoch s)))"
  obtain r1 s1 where f: "forecasts env targets (net s) s = (r1, s1)" by force
  note ff = forecasts_fields[OF f] and fr = forecasts_result[OF f]
  consider (fail) e where "r1 = Inl e"
    | (ok) etr md Yd Hd ed where "r1 = Inr (etr, md, Yd, Hd, ed)"
    by (cases r1) auto
  then have all: "trace s' = trace s @ ?new \<and> net s' = net s \<and> forward_calls ?new \<noteq> []
      \<and> prefix (forward_calls ?new) (threaded_calls env (net s))
      \<and> (\<not> isl r \<longrightarrow> 2 \<le> length (forward_calls ?new))
      \<and> (isl r \<longrightarrow> snapshots ?new = [])
      \<and> (\<forall>b. r = Inr b \<longrightarrow> ?Q b)"
  proof cases
    case fail
    with ev f have "r = Inl e" "s' = s1" by (simp_all add: evaluation_unfold)
    with ff fr show ?thesis by simp
  next
    case ok
    from fr(5)[OF ok] obtain Ytr Htr where
      tr: "forward env (net s) Train None = Inr (Ytr, Htr)" "Htr \<noteq> []"
      and dv: "forward env (net s) Dev (Some (last Htr)) = Inr (Yd, Hd)"
      and ed: "py_prediction_error (targets Dev) (t2np env Yd) = Inr ed"
      and fc1: "forward_calls (new_events s s1) = [(Train, None), (Dev, Some (last Htr))]"
      by blast
    define s2 where "s2 = s1\<lparr>trace := trace s1 @ reports epoch mse_train etr md ed\<rparr>"
    have s2: "trace s2 = trace s1 @ reports epoch mse_train etr md ed" "net s2 = net s"
      "best_dev_error s2 = best_dev_error s" "best_dev_epoch s2 = best_dev_epoch s"
      "error_test s2 = error_test s"
      by (simp_all add: s2_def ff)
    note n2 = new_events_trans[OF ff(5) s2(1)]
    have th: "threaded_calls env (net s) =
        (Train, None) # (Dev, Some (last Htr)) #
          (if Hd = [] then [] else [(Test, Some (last Hd))])"
      by (simp add: threaded_calls_def tr dv last_state_def)
    show ?thesis
    proof (cases "np_less ed (best_dev_error s)")
      case True
      with ev f ok have u: "update_best env targets epoch (net s) Yd Hd ed s2 = (r, s')"
        by (simp add: evaluation_unfold s2_def Let_def)
      note ub = update_best_result[OF u]
      note n3 = new_events_trans[OF n2(2) ub(1)]
      have calls: "forward_calls ?new = [(Train, None), (Dev, Some (last Htr))]
           @ (if Hd = [] then [] else [(Test, Some (last Hd))])"
        by (simp add: n3(1) n2(1) fc1 ub(6))
      have snaps: "snapshots ?new = snapshots (new_events s2 s')"
        by (simp add: n3(1) n2(1) fr(2))
      have q: "?Q b" if "r = Inr b" for b
      proof -
        from that have "\<not> isl r" by simp
        from ub(8)[OF this] obtain Yt Ht where
          "Hd \<noteq> []" "forward env (net s) Test (Some (last Hd)) = Inr (Yt, Ht)"
          "py_prediction_error (targets Test) (t2np env Yt) = Inr (error_test s')"
          "snapshots (new_events s2 s') = [TorchSave (net s), PickleDump Yd Yt]"
          by blast
        moreover from that ub(5) have "\<not> b" by auto
        ultimately show ?thesis
          using tr dv ed True ub(3,4) calls snaps by (intro exI[of _ Ytr] exI[of _ Htr] exI[of _ Yd] exI[of _ Hd] exI[of _ ed]) auto
      qed
      have "trace s' = trace s @ ?new" by (rule n3(2))
      moreover have "net s' = net s" by (simp add: ub(2) s2(2))
      moreover have "forward_calls ?new \<noteq> []" by (simp add: calls)
      moreover have "prefix (forward_calls ?new) (threaded_calls env (net s))"
        by (simp add: calls th)
      moreover have "2 \<le> length (forward_calls ?new)" by (simp add: calls)
      moreover have "isl r \<longrightarrow> snapshots ?new = []" using ub(7) snaps by simp
      ultimately show ?thesis using q by blast
    next
      case False
      let ?stop = "max_epochs_no_decrease < int epoch - int (best_dev_epoch s)"
      from ev f ok False have rs: "r = Inr ?stop"
        "s' = (if ?stop then s2\<lparr>trace := trace s2 @
              [Logging ''Development error did not decrease -- quitting'']\<rparr> else s2)"
        by (auto simp: evaluation_unfold s2_def Let_def split: if_splits)
      have t3: "trace s' = trace s2 @ (if ?stop then
              [Logging ''Development error did not decrease -- quitting''] else [])"
        by (simp add: rs(2))
      note n3 = new_events_trans[OF n2(2) t3]
      have calls: "forward_calls ?new = [(Train, None), (Dev, Some (last Htr))]"
        by (simp add: n3(1) n2(1) fc1)
      have snaps: "snapshots ?new = []" by (simp add: n3(1) n2(1) fr(2))
      have fields: "best_dev_error s' = best_dev_error s" "best_dev_epoch s' = best_dev_epoch s"
        "error_test s' = error_test s" "net s' = net s"
        by (simp_all add: rs(2) s2)
      have q: "?Q b" if "r = Inr b" for b
        using that rs(1) tr dv ed False fields calls snaps
        by (intro exI[of _ Ytr] exI[of _ Htr] exI[of _ Yd] exI[of _ Hd] exI[of _ ed]) auto
      have "trace s' = trace s @ ?new" by (rule n3(2))
      moreover have "prefix (forward_calls ?new) (threaded_calls env (net s))"
        by (simp add: calls th)
      ultimately show ?thesis using q fields calls snaps by simp
    qed
  qed
  from all show "trace s' = trace s @ new_events s s'"
    and "net s' = net s"
    and "forward_calls (new_events s s') \<noteq> []"
    and "prefix (forward_calls (new_events s s')) (threaded_calls env (net s))"
    and "\<not> isl r \<Longrightarrow> 2 \<le> length (forward_calls (new_events s s'))"
    and "isl r \<Longrightarrow> snapshots (new_events s s') = []"
    by blast+
  from all show "r = Inr b \<Longrightarrow> ?Q b" by blast
qed

section \<open>Properties of the epoch loop\<close>

lemma np_less_trans: "np_less a b \<Longrightarrow> np_less b c \<Longrightarrow> np_less a c"
  by (cases a; cases b; cases c) simp_all

lemma np_le_refl [simp]: "np_le a a"
  by (simp add: np_le_def)

lemma np_le_trans: "np_le a b \<Longrightarrow> np_le b c \<Longrightarrow> np_le a c"
  unfolding np_le_def using np_less_trans by blast

lemma evaluation_best_le:
  assumes "evaluation env targets epoch mse_train s = (r, s')"
  shows "np_le (best_dev_error s') (best_dev_error s)"
proof -
  obtain r1 s1 where f: "forecasts env targets (net s) s = (r1, s1)" by force
  note ff = forecasts_fields[OF f]
  show ?thesis
  proof (cases r1)
    case (Inl e)
    with assms f have "s' = s1" by (simp add: evaluation_unfold)
    with ff show ?thesis by simp
  next
    case (Inr x)
    obtain etr md Yd Hd ed where x: "x = (etr, md, Yd, Hd, ed)" by (cases x) auto
    show ?thesis
    proof (cases "np_less ed (best_dev_error s)")
      case True
      with assms f Inr x have
        "update_best env targets epoch (net s) Yd Hd ed
           (s1\<lparr>trace := trace s1 @ reports epoch mse_train etr md ed\<rparr>) = (r, s')"
        by (simp add: evaluation_unfold Let_def)
      from update_best_result(3)[OF this] True show ?thesis by (simp add: np_le_def)
    next
      case False
      with assms f Inr x have "best_dev_error s' = best_dev_error s1"
        by (auto simp: evaluation_unfold Let_def split: if_splits)
      with ff show ?thesis by simp
    qed
  qed
qed

lemma epoch_loop_cases:
  assumes "epoch_loop env targets p (epoch # rest) s = (out, s')"
  obtains
    (train_raised) e where "trainer env epoch (net s) = Inl e" "out = Raised e"
      "s' = s\<lparr>trace := trace s @ [TrainEpoch epoch]\<rparr>"
  | (mod_raised) m mse where "trainer env epoch (net s) = Inr (m, mse)" "eval_epochs p = 0"
      "out = Raised ZeroDivisionError"
      "s' = s\<lparr>trace := trace s @ [TrainEpoch epoch], net := m\<rparr>"
  | (no_eval) m mse where "trainer env epoch (net s) = Inr (m, mse)" "eval_epochs p \<noteq> 0"
      "int epoch mod eval_epochs p \<noteq> 0"
      "epoch_loop env targets p rest (s\<lparr>trace := trace s @ [TrainEpoch epoch], net := m\<rparr>)
         = (out, s')"
  | (eval_raised) m mse e where "trainer env epoch (net s) = Inr (m, mse)" "eval_epochs p \<noteq> 0"
      "int epoch mod eval_epochs p = 0"
      "evaluation env targets epoch mse (s\<lparr>trace := trace s @ [TrainEpoch epoch], net := m\<rparr>)
         = (Inl e, s')"
      "out = Raised e"
  | (stopped) m mse where "trainer env epoch (net s) = Inr (m, mse)" "eval_epochs p \<noteq> 0"
      "int epoch mod eval_epochs p = 0"
      "evaluation env targets epoch mse (s\<lparr>trace := trace s @ [TrainEpoch epoch], net := m\<rparr>)
         = (Inr True, s')"
      "out = Stopped epoch"
  | (continued) m mse s3 where "trainer env epoch (net s) = Inr (m, mse)" "eval_epochs p \<noteq> 0"
      "int epoch mod eval_epochs p = 0"
      "evaluation env targets epoch mse (s\<lparr>trace := trace s @ [TrainEpoch epoch], net := m\<rparr>)
         = (Inr False, s3)"
      "epoch_loop env targets p rest s3 = (out, s')"
proof (cases "trainer env epoch (net s)")
  case (Inl e)
  with assms show ?thesis by (intro train_raised[of e]) (auto simp: Let_def)
next
  case (Inr x)
  obtain m mse where x: "x = (m, mse)" by (cases x) auto
  let ?s2 = "s\<lparr>trace := trace s @ [TrainEpoch epoch], net := m\<rparr>"
  show ?thesis
  proof (cases "eval_epochs p = 0")
    case True
    with assms Inr x show ?thesis by (intro mod_raised[of m mse]) (auto simp: Let_def)
  next
    case nz: False
    show ?thesis
    proof (cases "int epoch mod eval_epochs p = 0")
      case False
      with assms Inr x nz show ?thesis by (intro no_eval[of m mse]) (auto simp: Let_def)
    next
      case True
      obtain r s3 where e: "evaluation env targets epoch mse ?s2 = (r, s3)" by force
      show ?thesis
      proof (cases r)
        case (Inl err)
        with assms \<open>trainer env epoch (net s) = Inr x\<close> x nz True e show ?thesis
          by (intro eval_raised[of m mse err]) (auto simp: Let_def)
      next
        case (Inr b)
        show ?thesis
        proof (cases b)
          case True
          with assms \<open>trainer env epoch (net s) = Inr x\<close> x nz
            \<open>int epoch mod eval_epochs p = 0\<close> e Inr
          show ?thesis by (intro stopped[of m mse]) (auto simp: Let_def)
        next
          case False
          with assms \<open>trainer env epoch (net s) = Inr x\<close> x nz
            \<open>int epoch mod eval_epochs p = 0\<close> e Inr
          show ?thesis by (intro continued[of m mse s3]) (auto simp: Let_def)
        qed
      qed
    qed
  qed
qed

lemma epoch_loop_best_le:
  "epoch_loop env targets p es s = (out, s') \<Longrightarrow> np_le (best_dev_error s') (best_dev_error s)"
proof (induction es arbitrary: s)
  case Nil
  then show ?case by simp
next
  case (Cons epoch rest)
  from Cons.prems show ?case
  proof (cases rule: epoch_loop_cases)
    case (no_eval m mse)
    from Cons.IH[OF no_eval(4)] show ?thesis by simp
  next
    case (eval_raised m mse e)
    from evaluation_best_le[OF eval_raised(4)] show ?thesis by simp
  next
    case (stopped m mse)
    from evaluation_best_le[OF stopped(4)] show ?thesis by simp
  next
    case (continued m mse s3)
    from evaluation_best_le[OF continued(4)] have "np_le (best_dev_error s3) (best_dev_error s)"
      by simp
    with Cons.IH[OF continued(5)] show ?thesis by (rule np_le_trans)
  qed simp_all
qed

lemma epoch_loop_stopped:
  assumes "epoch_loop env targets p es s = (Stopped e, s')"
  shows "e \<in> set es" and "eval_epochs p \<noteq> 0" and "int e mod eval_epochs p = 0"
    and "max_epochs_no_decrease < int e - int (best_dev_epoch s')"
proof -
  have "e \<in> set es \<and> eval_epochs p \<noteq> 0 \<and> int e mod eval_epochs p = 0
      \<and> max_epochs_no_decrease < int e - int (best_dev_epoch s')"
    using assms
  proof (induction es arbitrary: s)
    case Nil
    then show ?case by simp
  next
    case (Cons epoch rest)
    from Cons.prems show ?case
    proof (cases rule: epoch_loop_cases)
      case (no_eval m mse)
      from Cons.IH[OF no_eval(4)] show ?thesis by simp
    next
      case (stopped m mse)
      from evaluation_result(7)[OF stopped(4) refl] stopped show ?thesis
        by (auto split: if_splits)
    next
      case (continued m mse s3)
      from Cons.IH[OF continued(5)] show ?thesis by simp
    qed simp_all
  qed
  then show "e \<in> set es" and "eval_epochs p \<noteq> 0" and "int e mod eval_epochs p = 0"
    and "max_epochs_no_decrease < int e - int (best_dev_epoch s')" by blast+
qed


lemma trained_epochs_append [simp]:
  "trained_epochs (xs @ ys) = trained_epochs xs @ trained_epochs ys"
  by (induction xs rule: trained_epochs.induct) simp_all

lemma forecasts_trained:
  assumes "forecasts env targets m s = (r, s')"
  shows "trained_epochs (new_events s s') = []"
  using assms unfolding forecasts_def step_defs last_state_def
  by (auto split: sum.splits prod.splits if_splits)

lemma update_best_trained:
  assumes "update_best env targets epoch m Yd Hd ed s = (r, s')"
  shows "trained_epochs (new_events s s') = []"
  using assms unfolding update_best_def step_defs last_state_def new_events_def
  by (auto split: sum.splits prod.splits if_splits)

lemma evaluation_trained:
  assumes "evaluation env targets epoch mse_train s = (r, s')"
  shows "trained_epochs (new_events s s') = []"
proof -
  obtain r1 s1 where f: "forecasts env targets (net s) s = (r1, s1)" by force
  note ff = forecasts_fields[OF f] and ft = forecasts_trained[OF f]
  show ?thesis
  proof (cases r1)
    case (Inl e)
    with assms f have "s' = s1" by (simp add: evaluation_unfold)
    with ft show ?thesis by simp
  next
    case (Inr x)
    obtain etr md Yd Hd ed where x: "x = (etr, md, Yd, Hd, ed)" by (cases x) auto
    define s2 where "s2 = s1\<lparr>trace := trace s1 @ reports epoch mse_train etr md ed\<rparr>"
    have s2: "trace s2 = trace s1 @ reports epoch mse_train etr md ed" by (simp add: s2_def)
    note n2 = new_events_trans[OF ff(5) s2]
    have t2: "trained_epochs (new_events s s2) = []" by (simp add: n2(1) ft reports_def)
    show ?thesis
    proof (cases "np_less ed (best_dev_error s)")
      case True
      with assms f Inr x have u:
        "update_best env targets epoch (net s) Yd Hd ed s2 = (r, s')"
        by (simp add: evaluation_unfold Let_def s2_def)
      note n3 = new_events_trans[OF n2(2) update_best_result(1)[OF u]]
      show ?thesis by (simp add: n3(1) t2 update_best_trained[OF u])
    next
      case False
      with assms f Inr x have "trace s' = trace s2 @
          (if max_epochs_no_decrease < int epoch - int (best_dev_epoch s)
           then [Logging ''Development error did not decrease -- quitting''] else [])"
        by (auto simp: evaluation_unfold Let_def s2_def split: if_splits)
      note n3 = new_events_trans[OF n2(2) this]
      show ?thesis by (simp add: n3(1) t2)
    qed
  qed
qed

lemma epoch_loop_trace:
  assumes "epoch_loop env targets p es s = (out, s')"
  shows "trace s' = trace s @ new_events s s'"
    and "prefix (trained_epochs (new_events s s')) es"
    and "out = Finished \<Longrightarrow> trained_epochs (new_events s s') = es"
    and "out = Stopped e \<Longrightarrow> trained_epochs (new_events s s') \<noteq> []
           \<and> last (trained_epochs (new_events s s')) = e"
proof -
  have "trace s' = trace s @ new_events s s'
      \<and> prefix (trained_epochs (new_events s s')) es
      \<and> (out = Finished \<longrightarrow> trained_epochs (new_events s s') = es)
      \<and> (out = Stopped e \<longrightarrow> trained_epochs (new_events s s') \<noteq> []
           \<and> last (trained_epochs (new_events s s')) = e)"
    using assms
  proof (induction es arbitrary: s)
    case Nil
    then show ?case by simp
  next
    case (Cons epoch rest)
    let ?s2 = "\<lambda>m. s\<lparr>trace := trace s @ [TrainEpoch epoch], net := m\<rparr>"
    have t2: "trace (?s2 m) = trace s @ [TrainEpoch epoch]" for m by simp
    from Cons.prems show ?case
    proof (cases rule: epoch_loop_cases)
      case (train_raised e)
      then show ?thesis by (simp add: new_events_def)
    next
      case (mod_raised m mse)
      then show ?thesis by (simp add: new_events_def)
    next
      case (no_eval m mse)
      from Cons.IH[OF no_eval(4)] have ih: "trace s' = trace (?s2 m) @ new_events (?s2 m) s'"
        "prefix (trained_epochs (new_events (?s2 m) s')) rest"
        "out = Finished \<longrightarrow> trained_epochs (new_events (?s2 m) s') = rest"
        "out = Stopped e \<longrightarrow> trained_epochs (new_events (?s2 m) s') \<noteq> []
           \<and> last (trained_epochs (new_events (?s2 m) s')) = e"
        by blast+
      note n = new_events_trans[OF t2 ih(1)]
      from ih(2,3,4) show ?thesis by (simp add: n)
    next
      case (eval_raised m mse err)
      note n = new_events_trans[OF t2 evaluation_result(1)[OF eval_raised(4)]]
      from eval_raised(5) show ?thesis
        by (simp add: n evaluation_trained[OF eval_raised(4)])
    next
      case (stopped m mse)
      note n = new_events_trans[OF t2 evaluation_result(1)[OF stopped(4)]]
      have "trained_epochs (new_events s s') = [epoch]"
        by (simp add: n evaluation_trained[OF stopped(4)])
      with stopped(5) n(2) show ?thesis by auto
    next
      case (continued m mse s3)
      note n1 = new_events_trans[OF t2 evaluation_result(1)[OF continued(4)]]
      from Cons.IH[OF continued(5)] have ih: "trace s' = trace s3 @ new_events s3 s'"
        "prefix (trained_epochs (new_events s3 s')) rest"
        "out = Finished \<longrightarrow> trained_epochs (new_events s3 s') = rest"
        "out = Stopped e \<longrightarrow> trained_epochs (new_events s3 s') \<noteq> []
           \<and> last (trained_epochs (new_events s3 s')) = e"
        by blast+
      note n = new_events_trans[OF n1(2) ih(1)]
      from ih(2,3,4) show ?thesis
        by (simp add: n n1(1) evaluation_trained[OF continued(4)])
    qed
  qed
  then show "trace s' = trace s @ new_events s s'"
    and "prefix (trained_epochs (new_events s s')) es"
    and "out = Finished \<Longrightarrow> trained_epochs (new_events s s') = es"
    and "out = Stopped e \<Longrightarrow> trained_epochs (new_events s s') \<noteq> []
           \<and> last (trained_epochs (new_events s s')) = e"
    by blast+
qed

lemma recorded_trace_grows:
  assumes "recorded s" and "trace s' = trace s @ evs" and "snapshots evs = []"
    and "best_dev_error s' = best_dev_error s" and "best_dev_epoch s' = best_dev_epoch s"
    and "error_test s' = error_test s"
  shows "recorded s'"
  using assms unfolding recorded_def by auto

lemma evaluation_recorded:
  assumes ev: "evaluation env targets epoch mse_train s = (Inr b, s')" and "recorded s"
  shows "recorded s'"
proof -
  obtain r1 s1 where f: "forecasts env targets (net s) s = (r1, s1)" by force
  note ff = forecasts_fields[OF f] and fr = forecasts_result[OF f]
  from ev f obtain etr md Yd Hd ed where ok: "r1 = Inr (etr, md, Yd, Hd, ed)"
    by (cases r1) (auto simp: evaluation_unfold)
  define s2 where "s2 = s1\<lparr>trace := trace s1 @ reports epoch mse_train etr md ed\<rparr>"
  have s2: "trace s2 = trace s1 @ reports epoch mse_train etr md ed"
    "best_dev_error s2 = best_dev_error s" "best_dev_epoch s2 = best_dev_epoch s"
    "error_test s2 = error_test s"
    by (simp_all add: s2_def ff)
  note n2 = new_events_trans[OF ff(5) s2(1)]
  show ?thesis
  proof (cases "np_less ed (best_dev_error s)")
    case True
    with ev f ok have u: "update_best env targets epoch (net s) Yd Hd ed s2 = (Inr b, s')"
      by (simp add: evaluation_unfold s2_def Let_def)
    note ub = update_best_result[OF u]
    from ub(8) obtain Yt Ht where
      "LogValue ''dev/best_error'' ed epoch \<in> set (new_events s2 s')"
      "LogValue ''test/corresp_error'' (error_test s') epoch \<in> set (new_events s2 s')"
      by auto
    then show ?thesis
      unfolding recorded_def ub(1) ub(3) ub(4) by simp
  next
    case False
    with ev f ok have t3: "trace s' = trace s2 @
          (if max_epochs_no_decrease < int epoch - int (best_dev_epoch s)
           then [Logging ''Development error did not decrease -- quitting''] else [])"
      and fields: "best_dev_error s' = best_dev_error s2" "best_dev_epoch s' = best_dev_epoch s2"
        "error_test s' = error_test s2"
      by (auto simp: evaluation_unfold Let_def s2_def split: if_splits)
    note n3 = new_events_trans[OF n2(2) t3]
    show ?thesis
      by (rule recorded_trace_grows[OF assms(2) n3(2)])
        (simp_all add: n3(1) n2(1) fr(2) fields s2)
  qed
qed

lemma epoch_loop_recorded:
  assumes "epoch_loop env targets p es s = (out, s')" and "recorded s" and "\<not> is_raised out"
  shows "recorded s'"
  using assms
proof (induction es arbitrary: s)
  case Nil
  then show ?case by simp
next
  case (Cons epoch rest)
  have r2: "recorded (s\<lparr>trace := trace s @ [TrainEpoch epoch], net := m\<rparr>)" for m
    by (rule recorded_trace_grows[OF Cons.prems(2), of _ "[TrainEpoch epoch]"]) simp_all
  from Cons.prems(1) show ?case
  proof (cases rule: epoch_loop_cases)
    case (train_raised e)
    with Cons.prems(3) show ?thesis by simp
  next
    case (mod_raised m mse)
    with Cons.prems(3) show ?thesis by simp
  next
    case (no_eval m mse)
    from Cons.IH[OF no_eval(4) r2 Cons.prems(3)] show ?thesis .
  next
    case (eval_raised m mse e)
    with Cons.prems(3) show ?thesis by simp
  next
    case (stopped m mse)
    from evaluation_recorded[OF stopped(4) r2] show ?thesis .
  next
    case (continued m mse s3)
    from evaluation_recorded[OF continued(4) r2] have "recorded s3" .
    from Cons.IH[OF continued(5) this Cons.prems(3)] show ?thesis .
  qed
qed

lemma recorded_initial: "recorded (initial_state m)"
  by (simp add: recorded_def initial_state_def)

lemma prediction_error_toy: "prediction_error toy_truth toy_prediction = Inr (Fin 100)"
proof -
  have "prediction_error toy_truth toy_prediction = Inr (rrse_percent toy_truth toy_prediction)"
    by (rule prediction_error_unfolded) (simp_all add: wf_ndarray_def toy_truth_def toy_prediction_def)
  then show ?thesis by (simp add: rrse_toy)
qed

lemma toy_evaluation:
  "evaluation toy_env toy_targets epoch mse s =
     (if np_less (Fin 100) (best_dev_error s)
      then (Inr False,
            s\<lparr>best_dev_error := Fin 100, best_dev_epoch := epoch, error_test := Fin 100,
              trace := trace s @ [Forward Train None, Forward Dev (Some 1)]
                @ reports epoch mse (Fin 100) (Fin 1) (Fin 100)
                @ [LogValue ''dev/best_error'' (Fin 100) epoch, Forward Test (Some 3),
                   LogValue ''test/corresp_error'' (Fin 100) epoch,
                   Logging ''new best dev error'', ShowData ''best_dev_devresults'',
                   ShowData ''best_dev_testresults'', TorchSave (net s),
                   PickleDump toy_prediction toy_prediction]\<rparr>)
      else if max_epochs_no_decrease < int epoch - int (best_dev_epoch s)
      then (Inr True,
            s\<lparr>trace := trace s @ [Forward Train None, Forward Dev (Some 1)]
                @ reports epoch mse (Fin 100) (Fin 1) (Fin 100)
                @ [Logging ''Development error did not decrease -- quitting'']\<rparr>)
      else (Inr False,
            s\<lparr>trace := trace s @ [Forward Train None, Forward Dev (Some 1)]
                @ reports epoch mse (Fin 100) (Fin 1) (Fin 100)\<rparr>))"
  by (simp add: evaluation_def forecasts_def update_best_def step_defs last_state_def
      toy_env_def toy_targets_def prediction_error_toy)


lemma epoch_loop_append:
  "epoch_loop env targets p (es1 @ es2) s =
     (case epoch_loop env targets p es1 s of
        (Finished, s1) \<Rightarrow> epoch_loop env targets p es2 s1
      | (out, s1) \<Rightarrow> (out, s1))"
  by (induction es1 arbitrary: s)
    (auto simp: Let_def split: sum.splits prod.splits bool.splits outcome.splits)

lemma toy_trainer [simp]: "trainer toy_env epoch m = Inr (Suc m, Fin 1)"
  by (simp add: toy_env_def)

lemma toy_skip:
  assumes "eval_epochs p \<noteq> 0" and "list_all (\<lambda>e. int e mod eval_epochs p \<noteq> 0) es"
  shows "\<exists>s'. epoch_loop toy_env targets p es s = (Finished, s')
           \<and> best_dev_error s' = best_dev_error s \<and> best_dev_epoch s' = best_dev_epoch s"
  using assms(2)
proof (induction es arbitrary: s)
  case Nil
  then show ?case by simp
next
  case (Cons e es)
  let ?s2 = "s\<lparr>trace := trace s @ [TrainEpoch e], net := Suc (net s)\<rparr>"
  from Cons.prems have e: "int e mod eval_epochs p \<noteq> 0"
    and es: "list_all (\<lambda>e. int e mod eval_epochs p \<noteq> 0) es" by simp_all
  from Cons.IH[OF es, of ?s2] obtain s' where
    "epoch_loop toy_env targets p es ?s2 = (Finished, s')"
    "best_dev_error s' = best_dev_error s" "best_dev_epoch s' = best_dev_epoch s" by auto
  with e assms(1) show ?case by (simp add: Let_def)
qed

lemma toy_eval_epoch:
  assumes "eval_epochs p \<noteq> 0" and "int e mod eval_epochs p = 0"
  shows "\<exists>s'. epoch_loop toy_env toy_targets p [e] s =
             (if np_less (Fin 100) (best_dev_error s) then Finished
              else if max_epochs_no_decrease < int e - int (best_dev_epoch s) then Stopped e
              else Finished, s')
           \<and> best_dev_error s' =
               (if np_less (Fin 100) (best_dev_error s) then Fin 100 else best_dev_error s)
           \<and> best_dev_epoch s' =
               (if np_less (Fin 100) (best_dev_error s) then e else best_dev_epoch s)"
  using assms by (simp add: Let_def toy_evaluation)

lemma toy_segment:
  assumes "eval_epochs p \<noteq> 0" and "list_all (\<lambda>e. int e mod eval_epochs p \<noteq> 0) es"
    and "int e mod eval_epochs p = 0"
  shows "\<exists>s'. epoch_loop toy_env toy_targets p (es @ [e]) s =
             (if np_less (Fin 100) (best_dev_error s) then Finished
              else if max_epochs_no_decrease < int e - int (best_dev_epoch s) then Stopped e
              else Finished, s')
           \<and> best_dev_error s' =
               (if np_less (Fin 100) (best_dev_error s) then Fin 100 else best_dev_error s)
           \<and> best_dev_epoch s' =
               (if np_less (Fin 100) (best_dev_error s) then e else best_dev_epoch s)"
proof -
  from toy_skip[OF assms(1,2), of toy_targets s] obtain s1 where
    s1: "epoch_loop toy_env toy_targets p es s = (Finished, s1)"
    and b1: "best_dev_error s1 = best_dev_error s" "best_dev_epoch s1 = best_dev_epoch s"
    by auto
  have app: "epoch_loop toy_env toy_targets p (es @ [e]) s
      = epoch_loop toy_env toy_targets p [e] s1"
    by (simp only: epoch_loop_append s1 prod.case outcome.case)
  from toy_eval_epoch[OF assms(1,3), of s1] show ?thesis
    unfolding app b1 .
qed

lemma between_not_multiple:
  assumes "k * 600 < e" and "e < Suc k * 600"
  shows "int e mod 600 \<noteq> 0"
proof
  assume "int e mod 600 = 0"
  then have "600 dvd int e" by presburger
  then have "600 dvd e" by presburger
  then obtain q where q: "e = 600 * q" by (auto simp: dvd_def)
  with assms have "k < q" "q < Suc k" by simp_all
  then show False by simp
qed

lemma upt_segment: "a < b \<Longrightarrow> [a ..< Suc b] = [a ..< b] @ [b]"
  by simp

lemma long_run_epochs:
  "[1 ..< nat (epochs long_run + 1)] =
     ([1 ..< 600] @ [600]) @ ([601 ..< 1200] @ [1200]) @ ([1201 ..< 1800] @ [1800])"
proof -
  have a: "[1 ..< 1801] = [1 ..< 601] @ [601 ..< (1801::nat)]"
    using upt_add_eq_append[of 1 601 1200] by (simp del: upt_rec_numeral)
  have b: "[601 ..< 1801] = [601 ..< 1201] @ [1201 ..< (1801::nat)]"
    using upt_add_eq_append[of 601 1201 600] by (simp del: upt_rec_numeral)
  have c: "[1 ..< 601] = [1 ..< 600] @ [600::nat]"
    "[601 ..< 1201] = [601 ..< 1200] @ [1200::nat]"
    "[1201 ..< 1801] = [1201 ..< 1800] @ [1800::nat]"
    using upt_segment[of 1 600] upt_segment[of 601 1200] upt_segment[of 1201 1800]
    by (simp_all del: upt_rec_numeral upt_Suc)
  have "nat (epochs long_run + 1) = 1801" by (simp add: long_run_def)
  then show ?thesis
    by (simp only: a b c append_assoc)
qed

lemma long_run_segments:
  "list_all (\<lambda>e. int e mod 600 \<noteq> 0) [1 ..< 600]"
  "list_all (\<lambda>e. int e mod 600 \<noteq> 0) [601 ..< 1200]"
  "list_all (\<lambda>e. int e mod 600 \<noteq> 0) [1201 ..< 1800]"
  using between_not_multiple[of 0] between_not_multiple[of 1] between_not_multiple[of 2]
  by (simp_all add: list_all_iff del: upt_rec_numeral)

lemma long_run_loop:
  "\<exists>s'. epoch_loop toy_env toy_targets long_run [1 ..< nat (epochs long_run + 1)]
           (initial_state 0) = (Stopped 1800, s')
        \<and> best_dev_epoch s' = 600 \<and> best_dev_error s' = Fin 100"
proof -
  have ev: "eval_epochs long_run \<noteq> 0" "eval_epochs long_run = 600"
    by (simp_all add: long_run_def)
  have m: "int 600 mod eval_epochs long_run = 0" "int 1200 mod eval_epochs long_run = 0"
    "int 1800 mod eval_epochs long_run = 0"
    by (simp_all add: ev(2))
  note seg = long_run_segments[folded ev(2)]
  from toy_segment[OF ev(1) seg(1) m(1), of "initial_state 0"] obtain s1 where
    s1: "epoch_loop toy_env toy_targets long_run ([1 ..< 600] @ [600]) (initial_state 0)
          = (Finished, s1)"
      "best_dev_error s1 = Fin 100" "best_dev_epoch s1 = 600"
    by (auto simp: initial_state_def)
  from toy_segment[OF ev(1) seg(2) m(2), of s1] obtain s2 where
    s2: "epoch_loop toy_env toy_targets long_run ([601 ..< 1200] @ [1200]) s1 = (Finished, s2)"
      "best_dev_error s2 = Fin 100" "best_dev_epoch s2 = 600"
    by (auto simp: s1 max_epochs_no_decrease_def)
  from toy_segment[OF ev(1) seg(3) m(3), of s2] obtain s3 where
    s3: "epoch_loop toy_env toy_targets long_run ([1201 ..< 1800] @ [1800]) s2
          = (Stopped 1800, s3)"
      "best_dev_error s3 = Fin 100" "best_dev_epoch s3 = 600"
    by (auto simp: s2 max_epochs_no_decrease_def)
  have "epoch_loop toy_env toy_targets long_run [1 ..< nat (epochs long_run + 1)]
          (initial_state 0) = (Stopped 1800, s3)"
    unfolding long_run_epochs
    by (simp only: epoch_loop_append[of _ _ _ "[1 ..< 600] @ [600]"]
        epoch_loop_append[of _ _ _ "[601 ..< 1200] @ [1200]"] s1 s2 s3 prod.case outcome.case)
  with s3 show ?thesis by blast
qed


lemma threaded_calls_state0:
  "list_all (\<lambda>(sp, state0). (state0 = None) = (sp = Train)) (threaded_calls env m)"
  by (auto simp: threaded_calls_def split: sum.splits prod.splits)

lemma list_all_prefix: "prefix xs ys \<Longrightarrow> list_all P ys \<Longrightarrow> list_all P xs"
  by (auto simp: prefix_def)

section \<open>Claims about the training driver\<close>

text \<open>
  C4. In every evaluation pass the model is called first on the train split, without
  \<^verbatim>\<open>state0\<close>; the calls that follow are the call on the dev split, with \<^verbatim>\<open>state0\<close> the last
  hidden state returned for train, and the call on the test split, with \<^verbatim>\<open>state0\<close> the last
  hidden state returned for dev. No call but the one on train is made without \<^verbatim>\<open>state0\<close>.
  A pass that is cut short by an exception has made a first part of these calls, and a pass
  that completes has made the calls on train and on dev at least.
\<close>

theorem hidden_state_threading:
  assumes "evaluation env targets epoch mse_train s = (r, s')"
  shows "forward_calls (new_events s s') \<noteq> []
       \<and> prefix (forward_calls (new_events s s')) (threaded_calls env (net s))
       \<and> list_all (\<lambda>(sp, state0). (state0 = None) = (sp = Train))
            (forward_calls (new_events s s'))
       \<and> (\<not> isl r \<longrightarrow> 2 \<le> length (forward_calls (new_events s s')))"
proof -
  note er = evaluation_result[OF assms]
  from list_all_prefix[OF er(4) threaded_calls_state0]
  have "list_all (\<lambda>(sp, state0). (state0 = None) = (sp = Train))
          (forward_calls (new_events s s'))" .
  with er(3,4,5) show ?thesis by blast
qed

theorem hidden_state_threading_witness:
  "evaluation toy_env toy_targets 20 (Fin 1) (initial_state 0)
     = (fst (evaluation toy_env toy_targets 20 (Fin 1) (initial_state 0)),
        snd (evaluation toy_env toy_targets 20 (Fin 1) (initial_state 0)))
   \<and> \<not> isl (fst (evaluation toy_env toy_targets 20 (Fin 1) (initial_state 0)))
   \<and> forward_calls (new_events (initial_state 0)
         (snd (evaluation toy_env toy_targets 20 (Fin 1) (initial_state 0))))
       = [(Train, None), (Dev, Some 1), (Test, Some 3)]
   \<and> prefix [(Train, None), (Dev, Some 1), (Test, Some 3)]
         (threaded_calls toy_env (net (initial_state 0 :: (nat, nat, ndarray) run_state)))
   \<and> 2 \<le> length (forward_calls (new_events (initial_state 0)
         (snd (evaluation toy_env toy_targets 20 (Fin 1) (initial_state 0)))))"
proof -
  have c: "forward_calls (new_events (initial_state 0)
         (snd (evaluation toy_env toy_targets 20 (Fin 1) (initial_state 0))))
       = [(Train, None), (Dev, Some 1), (Test, Some 3)]"
    and r: "\<not> isl (fst (evaluation toy_env toy_targets 20 (Fin 1) (initial_state 0)))"
    by (simp_all add: toy_evaluation initial_state_def new_events_def)
  from hidden_state_threading[of toy_env toy_targets 20 "Fin 1" "initial_state 0"
      "fst (evaluation toy_env toy_targets 20 (Fin 1) (initial_state 0))"
      "snd (evaluation toy_env toy_targets 20 (Fin 1) (initial_state 0))"] c r
  show ?thesis by simp
qed

end
